theory Spec2Isabelle
  imports Complex_Main "HOL-Library.Log_Nat" "HOL-Library.Word" "HOL-Library.Signed_Division"
begin

section \<open>C floating point values\<close>

text \<open>
  A C \<^verbatim>\<open>float\<close> or \<^verbatim>\<open>double\<close> is modelled by its value: not-a-number, the two
  infinities, or a finite rational.  The sign of zero is not kept; it decides nothing in
  the code below (no division by a zero appears, and a zero converts to the integer 0
  whatever its sign).  Every arithmetic operation computes the exact rational result and
  rounds it to the nearest value of the format, ties to even, with gradual underflow
  and overflow to infinity, as IEEE 754 prescribes.
\<close>

datatype cfloat = NaN | PInf | NInf | Fin rat

definition round_ties_even :: "rat \<Rightarrow> int" where
  "round_ties_even x =
     (let f = \<lfloor>x\<rfloor>; d = x - of_int f
      in if d < 1 / 2 then f else if 1 / 2 < d then f + 1
         else if even f then f else f + 1)"

text \<open>\<open>binade x\<close> is the exponent \<open>e\<close> with \<open>2\<^sup>e \<le> |x| < 2\<^sup>e\<^sup>+\<^sup>1\<close>, for \<open>x \<noteq> 0\<close>.\<close>

definition binade :: "rat \<Rightarrow> int" where
  "binade x =
     (let (n, d) = quotient_of \<bar>x\<bar>;
          e0 = int (floorlog 2 (nat n)) - int (floorlog 2 (nat d))
      in if 2 powi e0 \<le> \<bar>x\<bar> then e0 else e0 - 1)"

text \<open>Rounding to a binary format with \<open>p\<close> significand bits and exponents \<open>emin .. emax\<close>.\<close>

definition round_fp :: "nat \<Rightarrow> int \<Rightarrow> int \<Rightarrow> rat \<Rightarrow> cfloat" where
  "round_fp p emin emax x =
     (if x = 0 then Fin 0
      else let e = max (binade x) emin;
               q = 2 powi (e - (int p - 1));
               r = of_int (round_ties_even (x / q)) * q
           in if \<bar>r\<bar> < 2 powi (emax + 1) then Fin r
              else if 0 < x then PInf else NInf)"

definition to_float :: "rat \<Rightarrow> cfloat" where
  "to_float = round_fp 24 (- 126) 127"

definition to_double :: "rat \<Rightarrow> cfloat" where
  "to_double = round_fp 53 (- 1022) 1023"

text \<open>Conversion of a \<^verbatim>\<open>double\<close> value to \<^verbatim>\<open>float\<close> (assignment, initialisation).\<close>

fun narrow :: "cfloat \<Rightarrow> cfloat" where
  "narrow (Fin d) = to_float d"
| "narrow x = x"

text \<open>
  A decimal literal without suffix is a \<^verbatim>\<open>double\<close>; stored in a \<^verbatim>\<open>float\<close> table it is
  narrowed.
\<close>

definition float_lit :: "rat \<Rightarrow> cfloat" where
  "float_lit x = narrow (to_double x)"

text \<open>Comparisons: every comparison with a NaN is false.\<close>

fun fle :: "cfloat \<Rightarrow> cfloat \<Rightarrow> bool" where
  "fle NaN _ = False"
| "fle _ NaN = False"
| "fle NInf _ = True"
| "fle _ PInf = True"
| "fle (Fin a) (Fin b) = (a \<le> b)"
| "fle _ _ = False"

definition fge :: "cfloat \<Rightarrow> cfloat \<Rightarrow> bool" where
  "fge a b = fle b a"

text \<open>Arithmetic, parametrised by the rounding of the format it is carried out in.\<close>

fun fneg :: "cfloat \<Rightarrow> cfloat" where
  "fneg NaN = NaN"
| "fneg PInf = NInf"
| "fneg NInf = PInf"
| "fneg (Fin a) = Fin (- a)"

fun fp_add :: "(rat \<Rightarrow> cfloat) \<Rightarrow> cfloat \<Rightarrow> cfloat \<Rightarrow> cfloat" where
  "fp_add rnd NaN _ = NaN"
| "fp_add rnd _ NaN = NaN"
| "fp_add rnd PInf NInf = NaN"
| "fp_add rnd NInf PInf = NaN"
| "fp_add rnd PInf _ = PInf"
| "fp_add rnd _ PInf = PInf"
| "fp_add rnd NInf _ = NInf"
| "fp_add rnd _ NInf = NInf"
| "fp_add rnd (Fin a) (Fin b) = rnd (a + b)"

definition fp_sub :: "(rat \<Rightarrow> cfloat) \<Rightarrow> cfloat \<Rightarrow> cfloat \<Rightarrow> cfloat" where
  "fp_sub rnd a b = fp_add rnd a (fneg b)"

definition inf_of_sign :: "bool \<Rightarrow> cfloat" where
  "inf_of_sign negative = (if negative then NInf else PInf)"

fun is_negative :: "cfloat \<Rightarrow> bool" where
  "is_negative NInf = True"
| "is_negative (Fin a) = (a < 0)"
| "is_negative _ = False"

fun fp_mul :: "(rat \<Rightarrow> cfloat) \<Rightarrow> cfloat \<Rightarrow> cfloat \<Rightarrow> cfloat" where
  "fp_mul rnd NaN _ = NaN"
| "fp_mul rnd _ NaN = NaN"
| "fp_mul rnd (Fin a) (Fin b) = rnd (a * b)"
| "fp_mul rnd a b =
     (if a = Fin 0 \<or> b = Fin 0 then NaN
      else inf_of_sign (is_negative a \<noteq> is_negative b))"

fun fp_div :: "(rat \<Rightarrow> cfloat) \<Rightarrow> cfloat \<Rightarrow> cfloat \<Rightarrow> cfloat" where
  "fp_div rnd NaN _ = NaN"
| "fp_div rnd _ NaN = NaN"
| "fp_div rnd (Fin a) (Fin b) =
     (if b = 0 then (if a = 0 then NaN else inf_of_sign (a < 0)) else rnd (a / b))"
| "fp_div rnd (Fin a) _ = Fin 0"
| "fp_div rnd a (Fin b) = inf_of_sign (is_negative a \<noteq> (b < 0))"
| "fp_div rnd _ _ = NaN"

text \<open>
  \<^verbatim>\<open>trunc\<close> followed by the conversion to \<^verbatim>\<open>int\<close>.  The conversion of a value that
  does not fit the 32-bit \<^verbatim>\<open>int\<close> is undefined behaviour: \<open>None\<close>.
\<close>

definition trunc_rat :: "rat \<Rightarrow> int" where
  "trunc_rat q = (if 0 \<le> q then \<lfloor>q\<rfloor> else \<lceil>q\<rceil>)"

fun trunc_to_int :: "cfloat \<Rightarrow> int option" where
  "trunc_to_int (Fin q) =
     (if - (2 ^ 31) \<le> trunc_rat q \<and> trunc_rat q < 2 ^ 31 then Some (trunc_rat q) else None)"
| "trunc_to_int _ = None"

text \<open>
  The finite value that \<open>round_fp\<close> tests for overflow: the nearest multiple of the
  quantum of the binade of \<open>x\<close>.
\<close>

definition rounded :: "nat \<Rightarrow> int \<Rightarrow> rat \<Rightarrow> rat" where
  "rounded p emin x =
     (let e = max (binade x) emin; q = 2 powi (e - (int p - 1))
      in of_int (round_ties_even (x / q)) * q)"


section \<open>Air quality index (\<^verbatim>\<open>include/aqipm.h\<close>)\<close>

definition BIN_PM25 :: "cfloat list" where
  "BIN_PM25 = map float_lit [0, 0, 12, 354 / 10, 554 / 10, 1504 / 10, 2504 / 10, 3504 / 10, 5004 / 10]"

definition BIN_PM10 :: "cfloat list" where
  "BIN_PM10 = map float_lit [0, 0, 54, 154, 254, 135, 424, 504, 604]"

definition BIN_AQI :: "cfloat list" where
  "BIN_AQI = map float_lit [0, 0, 50, 100, 150, 200, 300, 400, 500]"

text \<open>
  The guard and the body of the branch of the if/else chain that reads the table entries
  \<open>k\<close> and \<open>k + 1\<close>; the seven branches of each function are the instances
  \<open>k = 1, \<dots>, 7\<close>, in this order.  All operands are \<^verbatim>\<open>float\<close>, so every operation
  rounds to \<^verbatim>\<open>float\<close>.
\<close>

definition in_bin :: "cfloat list \<Rightarrow> nat \<Rightarrow> cfloat \<Rightarrow> bool" where
  "in_bin B k pm = (fge pm (B ! k) \<and> fle pm (B ! (k + 1)))"

definition interp :: "cfloat list \<Rightarrow> nat \<Rightarrow> cfloat \<Rightarrow> cfloat" where
  "interp B k pm =
     fp_add to_float
       (fp_mul to_float
          (fp_div to_float
             (fp_sub to_float (BIN_AQI ! (k + 1)) (BIN_AQI ! k))
             (fp_sub to_float (B ! (k + 1)) (B ! k)))
          (fp_sub to_float pm (B ! k)))
       (BIN_AQI ! k)"

definition calcAQIpm25 :: "cfloat \<Rightarrow> int option" where
  "calcAQIpm25 pm25 =
     trunc_to_int
       (if in_bin BIN_PM25 1 pm25 then interp BIN_PM25 1 pm25
        else if in_bin BIN_PM25 2 pm25 then interp BIN_PM25 2 pm25
        else if in_bin BIN_PM25 3 pm25 then interp BIN_PM25 3 pm25
        else if in_bin BIN_PM25 4 pm25 then interp BIN_PM25 4 pm25
        else if in_bin BIN_PM25 5 pm25 then interp BIN_PM25 5 pm25
        else if in_bin BIN_PM25 6 pm25 then interp BIN_PM25 6 pm25
        else if in_bin BIN_PM25 7 pm25 then interp BIN_PM25 7 pm25
        else Fin 0)"

definition calcAQIpm10 :: "cfloat \<Rightarrow> int option" where
  "calcAQIpm10 pm10 =
     trunc_to_int
       (if in_bin BIN_PM10 1 pm10 then interp BIN_PM10 1 pm10
        else if in_bin BIN_PM10 2 pm10 then interp BIN_PM10 2 pm10
        else if in_bin BIN_PM10 3 pm10 then interp BIN_PM10 3 pm10
        else if in_bin BIN_PM10 4 pm10 then interp BIN_PM10 4 pm10
        else if in_bin BIN_PM10 5 pm10 then interp BIN_PM10 5 pm10
        else if in_bin BIN_PM10 6 pm10 then interp BIN_PM10 6 pm10
        else if in_bin BIN_PM10 7 pm10 then interp BIN_PM10 7 pm10
        else Fin 0)"

text \<open>An input outside the table range \<open>[0, hi]\<close>; a NaN is outside every range.\<close>

fun outside_table :: "rat \<Rightarrow> cfloat \<Rightarrow> bool" where
  "outside_table hi (Fin q) = (q < 0 \<or> hi < q)"
| "outside_table hi _ = True"

section \<open>Music LEDs (\<^verbatim>\<open>custom_components/esphome-music-leds/esphome_music_leds.cpp\<close>)\<close>

subsection \<open>Data\<close>

type_synonym int16 = "16 word"
type_synonym uint8 = "8 word"
type_synonym uint16 = "16 word"

text \<open>
  FastLED's \<^verbatim>\<open>CRGB\<close> (fields \<^verbatim>\<open>r, g, b\<close>) and ESPHome's \<^verbatim>\<open>Color\<close> (fields
  \<^verbatim>\<open>r, g, b, w\<close>); the selectors carry the type's name as a prefix to keep the two apart.
\<close>

datatype CRGB = CRGB (crgb_r: uint8) (crgb_g: uint8) (crgb_b: uint8)

datatype Color = Color (color_r: uint8) (color_g: uint8) (color_b: uint8) (color_w: uint8)

text \<open>
  \<^verbatim>\<open>PLAYMODE\<close> is an enumeration of the header; a C++ enumeration variable can hold
  values of its underlying type other than the enumerators, here \<open>MODE_OTHER\<close>.
\<close>

datatype PLAYMODE = MODE_SCROLL | MODE_ENERGY | MODE_SPECTRUM | MODE_OTHER int

text \<open>
  The constants of \<^verbatim>\<open>esphome_music_leds.h\<close>, a header that is not among the sources
  at hand: they are parameters of the model.
\<close>

record params =
  BUFFER_SIZE :: nat
  N_ROLLING_HISTORY :: nat
  SAMPLE_RATE :: nat

record i2s_pin_config =
  ws_io_num :: int
  data_in_num :: int

text \<open>The calls that leave the component, in the order in which they are made.\<close>

datatype event =
    I2S_DRIVER_INSTALL
  | I2S_SET_PIN int int
  | I2S_STOP
  | I2S_START
  | I2S_READ nat "32 word"
  | LOGI nat int int
  | LOGD PLAYMODE int
  | T2MEL
  | VISUALIZE_SCROLL
  | VISUALIZE_ENERGY
  | VISUALIZE_SPECTRUM
  | LIGHT_SET nat Color

fun is_LOGD :: "event \<Rightarrow> bool" where
  "is_LOGD (LOGD _ _) = True"
| "is_LOGD _ = False"

fun is_LIGHT_SET :: "event \<Rightarrow> bool" where
  "is_LIGHT_SET (LIGHT_SET _ _) = True"
| "is_LIGHT_SET _ = False"

fun is_VISUALIZE :: "event \<Rightarrow> bool" where
  "is_VISUALIZE VISUALIZE_SCROLL = True"
| "is_VISUALIZE VISUALIZE_ENERGY = True"
| "is_VISUALIZE VISUALIZE_SPECTRUM = True"
| "is_VISUALIZE _ = False"

text \<open>
  What is not a member of one \<^verbatim>\<open>MusicLeds\<close> object: the function-local statics of
  \<^verbatim>\<open>ShowFrame\<close> (\<^verbatim>\<open>mel_data\<close>, \<^verbatim>\<open>bytes_read\<close>, \<^verbatim>\<open>ii\<close>), the capture peripheral
  \<^verbatim>\<open>MLED_I2S_NUM\<close> (the samples it is going to deliver, oldest first) and the trace of
  calls made so far.
\<close>

record globals =
  mel_data :: "cfloat list"
  bytes_read :: nat
  ii :: "32 word"
  i2s_rx :: "int16 list"
  trace :: "event list"

text \<open>
  Modelled from the spec: the class declaration of \<^verbatim>\<open>MusicLeds\<close> is in the absent
  header.  Its members are those the source file uses; the sample buffer \<^verbatim>\<open>y_data\<close> is
  taken to be a member array (section 3: owned exclusively by the frame driver).  \<open>'f\<close>
  and \<open>'e\<close> are the states of the \<^verbatim>\<open>FFT\<close> and \<^verbatim>\<open>VisualEffect\<close> objects;
  \<open>n_pixels\<close> is the member \<^verbatim>\<open>n_pixels_\<close>.
\<close>

record ('f, 'e) MusicLeds =
  n_pixels :: uint16
  pin_config :: i2s_pin_config
  y_data :: "cfloat list"
  physic_leds :: "CRGB list"
  fft :: 'f
  effect :: 'e

text \<open>
  Modelled from the spec: the classes \<^verbatim>\<open>FFT\<close> and \<^verbatim>\<open>VisualEffect\<close> are not among the
  sources.  Section 2 and 4.3 give their contracts: the transform maps the whole sample
  buffer to the mel energies, a visualization writes the caller's pixel array from the
  mel energies; either may keep private state.
\<close>

record ('f, 'e) collab =
  t2mel :: "'f \<Rightarrow> cfloat list \<Rightarrow> 'f \<times> cfloat list"
  visualize_scroll :: "'e \<Rightarrow> cfloat list \<Rightarrow> CRGB list \<Rightarrow> 'e \<times> CRGB list"
  visualize_energy :: "'e \<Rightarrow> cfloat list \<Rightarrow> CRGB list \<Rightarrow> 'e \<times> CRGB list"
  visualize_spectrum :: "'e \<Rightarrow> cfloat list \<Rightarrow> CRGB list \<Rightarrow> 'e \<times> CRGB list"

subsection \<open>The capture peripheral and the log\<close>

definition emit :: "event \<Rightarrow> globals \<Rightarrow> globals" where
  "emit e g = g\<lparr>trace := trace g @ [e]\<rparr>"

definition i2s_driver_install :: "globals \<Rightarrow> globals" where
  "i2s_driver_install = emit I2S_DRIVER_INSTALL"

definition i2s_set_pin :: "i2s_pin_config \<Rightarrow> globals \<Rightarrow> globals" where
  "i2s_set_pin pins = emit (I2S_SET_PIN (ws_io_num pins) (data_in_num pins))"

definition i2s_stop :: "globals \<Rightarrow> globals" where
  "i2s_stop = emit I2S_STOP"

definition i2s_start :: "globals \<Rightarrow> globals" where
  "i2s_start = emit I2S_START"

text \<open>Modelled from the spec: FreeRTOS's \<^verbatim>\<open>portMAX_DELAY\<close>, wait without timeout.\<close>

definition portMAX_DELAY :: "32 word" where
  "portMAX_DELAY = 0xFFFFFFFF"

text \<open>
  Modelled from the spec: \<^verbatim>\<open>i2s_read\<close> is the blocking read of section 6.  It copies
  \<open>nbytes\<close> bytes, two per sample, to the destination and stores the number of bytes read.
  Without timeout it returns only once all of them have arrived: when the peripheral
  never delivers that many, the call does not return (\<open>None\<close>).  A destination too small
  for \<open>nbytes\<close> bytes is a buffer overrun (\<open>None\<close> as well).
\<close>

definition i2s_read ::
  "globals \<Rightarrow> int16 list \<Rightarrow> nat \<Rightarrow> 32 word \<Rightarrow> (int16 list \<times> globals) option" where
  "i2s_read g dest nbytes ticks_to_wait =
     (let n = nbytes div 2; k = min n (length (i2s_rx g))
      in if length dest < n then None
         else if k < n \<and> ticks_to_wait = portMAX_DELAY then None
         else Some (take k (i2s_rx g) @ drop k dest,
                    emit (I2S_READ nbytes ticks_to_wait)
                      (g\<lparr>i2s_rx := drop k (i2s_rx g), bytes_read := 2 * k\<rparr>)))"

subsection \<open>\<^verbatim>\<open>MusicLeds::setup\<close>\<close>

definition MusicLeds_setup ::
  "globals \<times> ('f, 'e) MusicLeds \<Rightarrow> globals \<times> ('f, 'e) MusicLeds" where
  "MusicLeds_setup s =
     (case s of (g, this) \<Rightarrow>
        (emit (LOGI (unat (n_pixels this)) (ws_io_num (pin_config this))
                 (data_in_num (pin_config this)))
           (i2s_start (i2s_stop (i2s_set_pin (pin_config this) (i2s_driver_install g)))),
         this))"

subsection \<open>\<^verbatim>\<open>MusicLeds::ShowFrame\<close>\<close>

text \<open>
  \<^verbatim>\<open>memcpy\<close> of \<open>n\<close> array elements inside one array.  Reading or writing beyond the
  array, and overlapping source and destination, are undefined behaviour: \<open>None\<close>.
\<close>

definition memcpy :: "'a list \<Rightarrow> nat \<Rightarrow> nat \<Rightarrow> nat \<Rightarrow> 'a list option" where
  "memcpy buf dst src n =
     (if dst + n \<le> length buf \<and> src + n \<le> length buf \<and> (dst + n \<le> src \<or> src + n \<le> dst)
      then Some (take dst buf @ take n (drop src buf) @ drop (dst + n) buf)
      else None)"

text \<open>The loop of lines 49 to 53, from iteration \<open>i\<close> on.\<close>

function shift_loop :: "params \<Rightarrow> nat \<Rightarrow> 'a list \<Rightarrow> 'a list option" where
  "shift_loop P i y =
     (if i < N_ROLLING_HISTORY P - 1 then
        (case memcpy y (i * BUFFER_SIZE P) ((i + 1) * BUFFER_SIZE P) (BUFFER_SIZE P) of
           None \<Rightarrow> None
         | Some y' \<Rightarrow> shift_loop P (i + 1) y')
      else Some y)"
  by pat_completeness auto
termination
  by (relation "measure (\<lambda>(P, i, y). N_ROLLING_HISTORY P - 1 - i)") auto

text \<open>
  \<^verbatim>\<open>i2s_buf[i] / 32768.0\<close>: the sample is converted to \<^verbatim>\<open>double\<close>, divided by the
  \<^verbatim>\<open>double\<close> 32768.0, and the quotient is narrowed to \<^verbatim>\<open>float\<close> by the assignment.
\<close>

definition normalize :: "int16 \<Rightarrow> cfloat" where
  "normalize s = narrow (fp_div to_double (to_double (of_int (sint s))) (to_double 32768))"

text \<open>
  The counter \<^verbatim>\<open>ii\<close> and the periodic log line (lines 60 to 64).  \<^verbatim>\<open>ii\<close> is a
  32-bit \<^verbatim>\<open>int\<close>; the increment wraps around in the model.  The time stamp
  \<^verbatim>\<open>millis()\<close> of the log line is left out.
\<close>

definition count_sample :: "params \<Rightarrow> PLAYMODE \<Rightarrow> globals \<Rightarrow> globals" where
  "count_sample P CurrentMode g =
     (let g' = g\<lparr>ii := ii g + 1\<rparr>
      in if sint (ii g') smod int (SAMPLE_RATE P) = 0
         then emit (LOGD CurrentMode (sint (ii g'))) g' else g')"

text \<open>
  The loop of lines 58 to 65, from iteration \<open>i\<close> on.  The index is computed in \<^verbatim>\<open>int\<close>,
  as the source does; an index outside the array is undefined behaviour, and so is the
  remainder by a zero \<^verbatim>\<open>SAMPLE_RATE\<close>.
\<close>

function normalize_loop ::
  "params \<Rightarrow> PLAYMODE \<Rightarrow> int16 list \<Rightarrow> nat \<Rightarrow> cfloat list \<times> globals
     \<Rightarrow> (cfloat list \<times> globals) option" where
  "normalize_loop P CurrentMode i2s_buf i s =
     (if i < BUFFER_SIZE P then
        (let idx = int (BUFFER_SIZE P) * (int (N_ROLLING_HISTORY P) - 1) + int i
         in if i < length i2s_buf \<and> 0 \<le> idx \<and> idx < int (length (fst s))
               \<and> SAMPLE_RATE P \<noteq> 0
            then normalize_loop P CurrentMode i2s_buf (i + 1)
                   ((fst s)[nat idx := normalize (i2s_buf ! i)],
                    count_sample P CurrentMode (snd s))
            else None)
      else Some s)"
  by pat_completeness auto
termination
  by (relation "measure (\<lambda>(P, m, buf, i, s). BUFFER_SIZE P - i)") auto

text \<open>The \<^verbatim>\<open>switch\<close> of lines 68 to 78; it has no \<^verbatim>\<open>default\<close> branch.\<close>

definition dispatch ::
  "('f, 'e) collab \<Rightarrow> PLAYMODE \<Rightarrow> 'e \<Rightarrow> cfloat list \<Rightarrow> CRGB list \<Rightarrow> globals
     \<Rightarrow> 'e \<times> CRGB list \<times> globals" where
  "dispatch C CurrentMode e mel leds g =
     (case CurrentMode of
        MODE_SCROLL \<Rightarrow>
          (case visualize_scroll C e mel leds of (e', leds') \<Rightarrow>
             (e', leds', emit VISUALIZE_SCROLL g))
      | MODE_ENERGY \<Rightarrow>
          (case visualize_energy C e mel leds of (e', leds') \<Rightarrow>
             (e', leds', emit VISUALIZE_ENERGY g))
      | MODE_SPECTRUM \<Rightarrow>
          (case visualize_spectrum C e mel leds of (e', leds') \<Rightarrow>
             (e', leds', emit VISUALIZE_SPECTRUM g))
      | MODE_OTHER _ \<Rightarrow> (e, leds, g))"

definition to_Color :: "CRGB \<Rightarrow> Color" where
  "to_Color p = Color (crgb_r p) (crgb_g p) (crgb_b p) 0"

text \<open>
  The loop of lines 80 to 87, from iteration \<open>i\<close> on; the light buffer is the list of its
  \<^verbatim>\<open>size()\<close> slots.  Reading \<^verbatim>\<open>physic_leds\<close> beyond its end is undefined behaviour.
\<close>

function copy_loop ::
  "CRGB list \<Rightarrow> nat \<Rightarrow> Color list \<times> globals \<Rightarrow> (Color list \<times> globals) option" where
  "copy_loop leds i s =
     (if i < length (fst s) then
        (if i < length leds
         then copy_loop leds (i + 1)
                ((fst s)[i := to_Color (leds ! i)],
                 emit (LIGHT_SET i (to_Color (leds ! i))) (snd s))
         else None)
      else Some s)"
  by pat_completeness auto
termination
  by (relation "measure (\<lambda>(leds, i, s). length (fst s) - i)") auto

text \<open>The recursive equations are unfolded by hand where needed.\<close>

declare shift_loop.simps [simp del] normalize_loop.simps [simp del] copy_loop.simps [simp del]

definition ShowFrame ::
  "params \<Rightarrow> ('f, 'e) collab \<Rightarrow> PLAYMODE \<Rightarrow> Color list \<Rightarrow> globals \<times> ('f, 'e) MusicLeds
     \<Rightarrow> (globals \<times> ('f, 'e) MusicLeds \<times> Color list) option" where
  "ShowFrame P C CurrentMode p_it s =
     (case s of (g, this) \<Rightarrow>
       (case shift_loop P 0 (y_data this) of
          None \<Rightarrow> None
        | Some y1 \<Rightarrow>
           (case i2s_read g (replicate (BUFFER_SIZE P) 0) (BUFFER_SIZE P * 2) portMAX_DELAY of
              None \<Rightarrow> None
            | Some (i2s_buf, g1) \<Rightarrow>
               (case normalize_loop P CurrentMode i2s_buf 0 (y1, g1) of
                  None \<Rightarrow> None
                | Some (y2, g2) \<Rightarrow>
                   (case t2mel C (fft this) y2 of (f', mel) \<Rightarrow>
                     (case dispatch C CurrentMode (effect this) mel (physic_leds this)
                             (emit T2MEL (g2\<lparr>mel_data := mel\<rparr>)) of (e', leds', g3) \<Rightarrow>
                       (case copy_loop leds' 0 (p_it, g3) of
                          None \<Rightarrow> None
                        | Some (light', g4) \<Rightarrow>
                            Some (g4,
                                  this\<lparr>y_data := y2, physic_leds := leds', fft := f',
                                    effect := e'\<rparr>,
                                  light'))))))))"

subsection \<open>Several instances\<close>

text \<open>
  A program with several \<^verbatim>\<open>MusicLeds\<close> objects: each has its members, all of them share
  the statics, the peripheral and the log.
\<close>

record ('f, 'e) world =
  shared :: globals
  instances :: "('f, 'e) MusicLeds list"

definition ShowFrame_on ::
  "params \<Rightarrow> ('f, 'e) collab \<Rightarrow> nat \<Rightarrow> PLAYMODE \<Rightarrow> Color list \<Rightarrow> ('f, 'e) world
     \<Rightarrow> (('f, 'e) world \<times> Color list) option" where
  "ShowFrame_on P C k CurrentMode p_it w =
     (if k < length (instances w) then
        (case ShowFrame P C CurrentMode p_it (shared w, instances w ! k) of
           None \<Rightarrow> None
         | Some (g', this', light') \<Rightarrow>
             Some (w\<lparr>shared := g', instances := (instances w)[k := this']\<rparr>, light'))
      else None)"

text \<open>
  The pipeline state as instance \<open>j\<close> sees it: its sample buffer, the mel-energy vector,
  its pixel buffer and the diagnostic sample counter.
\<close>

definition pipeline_state ::
  "('f, 'e) world \<Rightarrow> nat \<Rightarrow> cfloat list \<times> cfloat list \<times> CRGB list \<times> 32 word" where
  "pipeline_state w j =
     (y_data (instances w ! j), mel_data (shared w), physic_leds (instances w ! j),
      ii (shared w))"

subsection \<open>Auxiliary notions for the statements\<close>

text \<open>\<open>k\<close> samples counted, as the loop of lines 58 to 65 does one by one.\<close>

primrec count_samples :: "params \<Rightarrow> PLAYMODE \<Rightarrow> nat \<Rightarrow> globals \<Rightarrow> globals" where
  "count_samples P CurrentMode 0 g = g"
| "count_samples P CurrentMode (Suc k) g = count_samples P CurrentMode k (count_sample P CurrentMode g)"

text \<open>The calls of a trace that are not diagnostic log lines.\<close>

definition calls :: "event list \<Rightarrow> event list" where
  "calls es = filter (\<lambda>e. \<not> is_LOGD e) es"

text \<open>The visualization call made for a mode selector, if any.\<close>

fun visualize_call :: "PLAYMODE \<Rightarrow> event list" where
  "visualize_call MODE_SCROLL = [VISUALIZE_SCROLL]"
| "visualize_call MODE_ENERGY = [VISUALIZE_ENERGY]"
| "visualize_call MODE_SPECTRUM = [VISUALIZE_SPECTRUM]"
| "visualize_call (MODE_OTHER _) = []"

fun recognized :: "PLAYMODE \<Rightarrow> bool" where
  "recognized (MODE_OTHER _) = False"
| "recognized _ = True"

text \<open>
  The state in which a frame can run: the sample buffer has its declared length
  \<^verbatim>\<open>BUFFER_SIZE * N_ROLLING_HISTORY\<close> with at least one window, the peripheral is going to
  deliver a full window, and \<^verbatim>\<open>SAMPLE_RATE\<close> is not zero.
\<close>

definition frame_ready :: "params \<Rightarrow> globals \<Rightarrow> ('f, 'e) MusicLeds \<Rightarrow> bool" where
  "frame_ready P g this =
     (1 \<le> N_ROLLING_HISTORY P \<and>
      length (y_data this) = BUFFER_SIZE P * N_ROLLING_HISTORY P \<and>
      BUFFER_SIZE P \<le> length (i2s_rx g) \<and>
      SAMPLE_RATE P \<noteq> 0)"

text \<open>What the \<^verbatim>\<open>switch\<close> makes of the effect object and the pixel array.\<close>

fun visualized ::
  "('f, 'e) collab \<Rightarrow> PLAYMODE \<Rightarrow> 'e \<Rightarrow> cfloat list \<Rightarrow> CRGB list \<Rightarrow> 'e \<times> CRGB list" where
  "visualized C MODE_SCROLL e mel leds = visualize_scroll C e mel leds"
| "visualized C MODE_ENERGY e mel leds = visualize_energy C e mel leds"
| "visualized C MODE_SPECTRUM e mel leds = visualize_spectrum C e mel leds"
| "visualized C (MODE_OTHER v) e mel leds = (e, leds)"

text \<open>
  A visualization writes the caller's pixel array in place, so the length of the array
  stays.
\<close>

definition keeps_length :: "('f, 'e) collab \<Rightarrow> PLAYMODE \<Rightarrow> bool" where
  "keeps_length C CurrentMode =
     (\<forall>e mel leds. length (snd (visualized C CurrentMode e mel leds)) = length leds)"

text \<open>The sample buffer after the frame that starts in the given state.\<close>

definition ingested :: "params \<Rightarrow> globals \<Rightarrow> ('f, 'e) MusicLeds \<Rightarrow> cfloat list" where
  "ingested P g this =
     drop (BUFFER_SIZE P) (y_data this) @ map normalize (take (BUFFER_SIZE P) (i2s_rx g))"

text \<open>The number of writes to the light buffer in the trace of a result.\<close>

definition light_writes :: "(globals \<times> ('f, 'e) MusicLeds \<times> Color list) option \<Rightarrow> nat option" where
  "light_writes res =
     map_option (\<lambda>(g, this, light). length (filter is_LIGHT_SET (trace g))) res"

text \<open>The pipeline state instance \<open>j\<close> sees after a frame of some instance.\<close>

definition pipeline_state_after ::
  "(('f, 'e) world \<times> Color list) option \<Rightarrow> nat
     \<Rightarrow> (cfloat list \<times> cfloat list \<times> CRGB list \<times> 32 word) option" where
  "pipeline_state_after res j = map_option (\<lambda>(w, light). pipeline_state w j) res"

subsection \<open>A small configuration\<close>

text \<open>
  Windows of two samples, a history of two windows, a strip of two pixels whose light
  buffer has one slot, and collaborators that are as simple as their contracts allow.
\<close>

definition P0 :: params where
  "P0 = \<lparr>BUFFER_SIZE = 2, N_ROLLING_HISTORY = 2, SAMPLE_RATE = 3\<rparr>"

definition C0 :: "(unit, unit) collab" where
  "C0 = \<lparr>t2mel = (\<lambda>f y. (f, take 1 (rev y))),
         visualize_scroll = (\<lambda>e mel leds. (e, map (\<lambda>p. CRGB 7 8 9) leds)),
         visualize_energy = (\<lambda>e mel leds. (e, map (\<lambda>p. CRGB 10 11 12) leds)),
         visualize_spectrum = (\<lambda>e mel leds. (e, map (\<lambda>p. CRGB 13 14 15) leds))\<rparr>"

definition g0 :: globals where
  "g0 = \<lparr>mel_data = [Fin 0], bytes_read = 0, ii = 0,
         i2s_rx = [- 32768, 32767, 0, 16384], trace = []\<rparr>"

definition this0 :: "(unit, unit) MusicLeds" where
  "this0 = \<lparr>n_pixels = 2, pin_config = \<lparr>ws_io_num = 15, data_in_num = 32\<rparr>,
            y_data = [Fin 0, Fin (1 / 2), Fin (1 / 4), Fin 1],
            physic_leds = [CRGB 1 2 3, CRGB 4 5 6], fft = (), effect = ()\<rparr>"

definition light0 :: "Color list" where
  "light0 = [Color 0 0 0 255]"

definition w0 :: "(unit, unit) world" where
  "w0 = \<lparr>shared = g0, instances = [this0, this0]\<rparr>"

section \<open>Rounding\<close>

lemma round_ties_even_of_int: "round_ties_even (of_int z) = z"
  by (simp add: round_ties_even_def)

lemma binade_lower:
  assumes "x \<noteq> 0"
  shows "2 powi (binade x) \<le> \<bar>x\<bar>"
proof -
  obtain n d where nd: "quotient_of \<bar>x\<bar> = (n, d)" by (cases "quotient_of \<bar>x\<bar>")
  have dpos: "0 < d" using nd by (rule quotient_of_denom_pos)
  have xeq: "\<bar>x\<bar> = of_int n / of_int d" using nd by (rule quotient_of_div)
  have "0 < \<bar>x\<bar>" using assms by simp
  then have npos: "0 < n" using xeq dpos by (simp add: zero_less_divide_iff)
  define a where "a = floorlog 2 (nat n)"
  define b where "b = floorlog 2 (nat d)"
  have na: "2 ^ (a - 1) \<le> nat n" and "nat n < 2 ^ a"
    using floorlog_bounds[of "nat n" 2] npos by (auto simp: a_def)
  have db: "nat d < 2 ^ b"
    using floorlog_bounds[of "nat d" 2] dpos by (auto simp: b_def)
  have apos: "0 < a" using npos by (simp add: a_def floorlog_def)
  have n1: "(2::rat) ^ (a - 1) \<le> of_int n"
  proof -
    have "(of_nat (2 ^ (a - 1)) :: rat) \<le> of_nat (nat n)" using na by (simp only: of_nat_le_iff)
    moreover have "(of_nat (nat n) :: rat) = of_int n" using npos by simp
    ultimately show ?thesis by simp
  qed
  have d1: "(of_int d :: rat) \<le> 2 ^ b"
  proof -
    have "(of_nat (nat d) :: rat) < of_nat (2 ^ b)" using db by (simp only: of_nat_less_iff)
    moreover have "(of_nat (nat d) :: rat) = of_int d" using dpos by simp
    ultimately show ?thesis by simp
  qed
  have low: "2 powi (int a - int b - 1) \<le> \<bar>x\<bar>"
  proof -
    have "(2::rat) powi (int a - int b - 1) = 2 powi (int (a - 1)) / 2 powi (int b)"
      using apos by (simp add: power_int_diff of_nat_diff)
    also have "\<dots> = 2 ^ (a - 1) / 2 ^ b" by simp
    also have "\<dots> \<le> of_int n / of_int d"
      using n1 d1 dpos npos by (intro frac_le) auto
    finally show ?thesis using xeq by simp
  qed
  show ?thesis
    using low nd by (simp add: binade_def a_def b_def Let_def)
qed

lemma binade_less:
  assumes "x \<noteq> 0" "\<bar>x\<bar> < 2 powi k"
  shows "binade x < k"
proof (rule ccontr)
  assume "\<not> binade x < k"
  then have "k \<le> binade x" by simp
  then have "(2::rat) powi k \<le> 2 powi (binade x)"
    by (intro power_int_increasing) auto
  with binade_lower[OF assms(1)] assms(2) show False by simp
qed

lemma round_fp_exact:
  assumes x: "x = of_int m * 2 powi k"
    and k: "emin - (int p - 1) \<le> k"
    and m: "\<bar>x\<bar> < 2 powi (k + int p)"
    and hi: "\<bar>x\<bar> < 2 powi (emax + 1)"
  shows "round_fp p emin emax x = Fin x"
proof (cases "x = 0")
  case True
  then show ?thesis by (simp add: round_fp_def)
next
  case False
  define e where "e = max (binade x) emin"
  define q :: rat where "q = 2 powi (e - (int p - 1))"
  have "binade x < k + int p" using False m by (rule binade_less)
  then have ek: "e - (int p - 1) \<le> k" using k by (simp add: e_def)
  define j where "j = nat (k - (e - (int p - 1)))"
  have "(2::rat) powi k = 2 powi (e - (int p - 1)) * 2 powi (int j)"
    using ek by (simp add: j_def flip: power_int_add)
  then have "x / q = of_int (m * 2 ^ j)"
    using x by (simp add: q_def)
  moreover have "q \<noteq> 0" by (simp add: q_def)
  ultimately have r: "of_int (round_ties_even (x / q)) * q = x"
    by (simp only: round_ties_even_of_int) (simp add: nonzero_divide_eq_eq)
  show ?thesis
    using False hi r by (simp add: round_fp_def Let_def flip: e_def q_def)
qed




lemma binade_upper:
  assumes "x \<noteq> 0"
  shows "\<bar>x\<bar> < 2 powi (binade x + 1)"
proof -
  obtain n d where nd: "quotient_of \<bar>x\<bar> = (n, d)" by (cases "quotient_of \<bar>x\<bar>")
  have dpos: "0 < d" using nd by (rule quotient_of_denom_pos)
  have xeq: "\<bar>x\<bar> = of_int n / of_int d" using nd by (rule quotient_of_div)
  have "0 < \<bar>x\<bar>" using assms by simp
  then have npos: "0 < n" using xeq dpos by (simp add: zero_less_divide_iff)
  define a where "a = floorlog 2 (nat n)"
  define b where "b = floorlog 2 (nat d)"
  have na: "nat n < 2 ^ a"
    using floorlog_bounds[of "nat n" 2] npos by (auto simp: a_def)
  have db: "2 ^ (b - 1) \<le> nat d"
    using floorlog_bounds[of "nat d" 2] dpos by (auto simp: b_def)
  have bpos: "0 < b" using dpos by (simp add: b_def floorlog_def)
  have n1: "(of_int n :: rat) < 2 ^ a"
  proof -
    have "(of_nat (nat n) :: rat) < of_nat (2 ^ a)" using na by (simp only: of_nat_less_iff)
    moreover have "(of_nat (nat n) :: rat) = of_int n" using npos by simp
    ultimately show ?thesis by simp
  qed
  have d1: "(2::rat) ^ (b - 1) \<le> of_int d"
  proof -
    have "(of_nat (2 ^ (b - 1)) :: rat) \<le> of_nat (nat d)" using db by (simp only: of_nat_le_iff)
    moreover have "(of_nat (nat d) :: rat) = of_int d" using dpos by simp
    ultimately show ?thesis by simp
  qed
  have up: "\<bar>x\<bar> < 2 powi (int a - int b + 1)"
  proof -
    have "of_int n / of_int d < (2::rat) ^ a / 2 ^ (b - 1)"
      using n1 d1 dpos npos by (intro frac_less) auto
    also have "\<dots> = 2 powi (int a) / 2 powi (int (b - 1))" by simp
    also have "\<dots> = 2 powi (int a - int (b - 1))"
      by (rule power_int_diff [symmetric]) simp
    also have "int a - int (b - 1) = int a - int b + 1"
      using bpos by simp
    finally show ?thesis using xeq by simp
  qed
  show ?thesis
    using up nd by (auto simp add: binade_def a_def b_def Let_def not_le)
qed

lemma binade_eqI:
  assumes "2 powi e \<le> \<bar>x\<bar>" "\<bar>x\<bar> < 2 powi (e + 1)"
  shows "binade x = e"
proof -
  have nz: "x \<noteq> 0"
  proof
    assume "x = 0"
    with assms(1) have "(2::rat) powi e \<le> 0" by simp
    moreover have "(0::rat) < 2 powi e" by simp
    ultimately show False by linarith
  qed
  have "binade x < e + 1" using nz assms(2) by (rule binade_less)
  moreover have "e \<le> binade x"
  proof (rule ccontr)
    assume "\<not> e \<le> binade x"
    then have "binade x + 1 \<le> e" by simp
    then have "(2::rat) powi (binade x + 1) \<le> 2 powi e"
      by (intro power_int_increasing) auto
    with binade_upper[OF nz] assms(1) show False by simp
  qed
  ultimately show ?thesis by simp
qed

lemma round_fp_eval:
  assumes "2 powi e \<le> \<bar>x\<bar>" and up: "\<bar>x\<bar> < 2 powi (e + 1)"
    and e: "emin \<le> e"
    and z: "round_ties_even (x / 2 powi (e - (int p - 1))) = z"
    and r: "\<bar>of_int z * 2 powi (e - (int p - 1))\<bar> < (2::rat) powi h" and h: "h \<le> emax + 1"
  shows "round_fp p emin emax x = Fin (of_int z * 2 powi (e - (int p - 1)))"
proof -
  have nz: "x \<noteq> 0"
  proof
    assume "x = 0"
    with assms(1) have "(2::rat) powi e \<le> 0" by simp
    moreover have "(0::rat) < 2 powi e" by simp
    ultimately show False by linarith
  qed
  have b: "binade x = e" using assms(1) up by (rule binade_eqI)
  have "(2::rat) powi h \<le> 2 powi (emax + 1)"
    using h by (intro power_int_increasing) auto
  then have "\<bar>of_int z * 2 powi (e - (int p - 1))\<bar> < (2::rat) powi (emax + 1)"
    using r by simp
  then show ?thesis
    using nz e z by (simp add: round_fp_def b max_absorb1 Let_def)
qed


lemma small_abs_bounds:
  assumes "\<bar>x :: rat\<bar> < 2 ^ 24" "24 \<le> k"
  shows "\<bar>x\<bar> < 2 powi k"
proof -
  have "(2::rat) powi 24 \<le> 2 powi k"
    using assms(2) by (intro power_int_increasing) auto
  then show ?thesis using assms(1) by simp
qed

lemma to_float_of_int:
  assumes "\<bar>n\<bar> < 2 ^ 24"
  shows "to_float (of_int n) = Fin (of_int n)"
proof -
  have a: "\<bar>of_int n :: rat\<bar> < 2 ^ 24"
  proof -
    have "(of_int \<bar>n\<bar> :: rat) < of_int (2 ^ 24)" using assms by (simp only: of_int_less_iff)
    then show ?thesis by simp
  qed
  show ?thesis
    unfolding to_float_def
  proof (rule round_fp_exact [where m = n and k = 0])
    show "(of_int n :: rat) = of_int n * 2 powi 0" by simp
    show "- 126 - (int 24 - 1) \<le> 0" by simp
    show "\<bar>of_int n :: rat\<bar> < 2 powi (0 + int 24)" by (rule small_abs_bounds [OF a]) simp
    show "\<bar>of_int n :: rat\<bar> < 2 powi (127 + 1)" by (rule small_abs_bounds [OF a]) simp
  qed
qed

lemma to_double_of_int:
  assumes "\<bar>n\<bar> < 2 ^ 24"
  shows "to_double (of_int n) = Fin (of_int n)"
proof -
  have a: "\<bar>of_int n :: rat\<bar> < 2 ^ 24"
  proof -
    have "(of_int \<bar>n\<bar> :: rat) < of_int (2 ^ 24)" using assms by (simp only: of_int_less_iff)
    then show ?thesis by simp
  qed
  show ?thesis
    unfolding to_double_def
  proof (rule round_fp_exact [where m = n and k = 0])
    show "(of_int n :: rat) = of_int n * 2 powi 0" by simp
    show "- 1022 - (int 53 - 1) \<le> 0" by simp
    show "\<bar>of_int n :: rat\<bar> < 2 powi (0 + int 53)" by (rule small_abs_bounds [OF a]) simp
    show "\<bar>of_int n :: rat\<bar> < 2 powi (1023 + 1)" by (rule small_abs_bounds [OF a]) simp
  qed
qed

lemma float_lit_of_int:
  assumes "\<bar>n\<bar> < 2 ^ 24"
  shows "float_lit (of_int n) = Fin (of_int n)"
  by (simp add: float_lit_def to_double_of_int [OF assms] to_float_of_int [OF assms])

lemma unit_bound:
  assumes "\<bar>x :: rat\<bar> \<le> 1" "0 < k"
  shows "\<bar>x\<bar> < 2 powi k"
proof -
  have "(2::rat) powi 0 < 2 powi k"
    using assms(2) by (intro power_int_strict_increasing) auto
  then show ?thesis using assms(1) by simp
qed

lemma floor_numeral_divide:
  "\<lfloor>(numeral a :: rat) / numeral b\<rfloor> = numeral a div numeral b"
  using floor_divide_of_int_eq [of "numeral a" "numeral b", where ?'a = rat] by simp


section \<open>The tables of \<^verbatim>\<open>aqipm.h\<close>\<close>

lemma to_double_354: "to_double (354 / 10) = Fin (4982107087778611 / 140737488355328)"
  unfolding to_double_def
  by (subst round_fp_eval [where e = 5 and h = 6 and z = 4982107087778611])
     (simp_all add: round_ties_even_def Let_def floor_numeral_divide)

lemma to_float_354: "to_float (4982107087778611 / 140737488355328) = Fin (4639949 / 131072)"
  unfolding to_float_def
  by (subst round_fp_eval [where e = 5 and h = 6 and z = 9279898])
     (simp_all add: round_ties_even_def Let_def floor_numeral_divide)

lemma float_lit_354: "float_lit (354 / 10) = Fin (4639949 / 131072)"
  unfolding float_lit_def to_double_354 by (simp add: to_float_354)

lemma to_double_554: "to_double (554 / 10) = Fin (7796856854885171 / 140737488355328)"
  unfolding to_double_def
  by (subst round_fp_eval [where e = 5 and h = 6 and z = 7796856854885171])
     (simp_all add: round_ties_even_def Let_def floor_numeral_divide)

lemma to_float_554: "to_float (7796856854885171 / 140737488355328) = Fin (7261389 / 131072)"
  unfolding to_float_def
  by (subst round_fp_eval [where e = 5 and h = 6 and z = 14522778])
     (simp_all add: round_ties_even_def Let_def floor_numeral_divide)

lemma float_lit_554: "float_lit (554 / 10) = Fin (7261389 / 131072)"
  unfolding float_lit_def to_double_554 by (simp add: to_float_554)

lemma to_double_1504: "to_double (1504 / 10) = Fin (5291729562160333 / 35184372088832)"
  unfolding to_double_def
  by (subst round_fp_eval [where e = 7 and h = 8 and z = 5291729562160333])
     (simp_all add: round_ties_even_def Let_def floor_numeral_divide)

lemma to_float_1504: "to_float (5291729562160333 / 35184372088832) = Fin (4928307 / 32768)"
  unfolding to_float_def
  by (subst round_fp_eval [where e = 7 and h = 8 and z = 9856614])
     (simp_all add: round_ties_even_def Let_def floor_numeral_divide)

lemma float_lit_1504: "float_lit (1504 / 10) = Fin (4928307 / 32768)"
  unfolding float_lit_def to_double_1504 by (simp add: to_float_1504)

lemma to_double_2504: "to_double (2504 / 10) = Fin (8810166771043533 / 35184372088832)"
  unfolding to_double_def
  by (subst round_fp_eval [where e = 7 and h = 8 and z = 8810166771043533])
     (simp_all add: round_ties_even_def Let_def floor_numeral_divide)

lemma to_float_2504: "to_float (8810166771043533 / 35184372088832) = Fin (8205107 / 32768)"
  unfolding to_float_def
  by (subst round_fp_eval [where e = 7 and h = 8 and z = 16410214])
     (simp_all add: round_ties_even_def Let_def floor_numeral_divide)

lemma float_lit_2504: "float_lit (2504 / 10) = Fin (8205107 / 32768)"
  unfolding float_lit_def to_double_2504 by (simp add: to_float_2504)

lemma to_double_3504: "to_double (3504 / 10) = Fin (3082150994981683 / 8796093022208)"
  unfolding to_double_def
  by (subst round_fp_eval [where e = 8 and h = 9 and z = 6164301989963366])
     (simp_all add: round_ties_even_def Let_def floor_numeral_divide)

lemma to_float_3504: "to_float (3082150994981683 / 8796093022208) = Fin (11481907 / 32768)"
  unfolding to_float_def
  by (subst round_fp_eval [where e = 8 and h = 9 and z = 11481907])
     (simp_all add: round_ties_even_def Let_def floor_numeral_divide)

lemma float_lit_3504: "float_lit (3504 / 10) = Fin (11481907 / 32768)"
  unfolding float_lit_def to_double_3504 by (simp add: to_float_3504)

lemma to_double_5004: "to_double (5004 / 10) = Fin (4401564948312883 / 8796093022208)"
  unfolding to_double_def
  by (subst round_fp_eval [where e = 8 and h = 9 and z = 8803129896625766])
     (simp_all add: round_ties_even_def Let_def floor_numeral_divide)

lemma to_float_5004: "to_float (4401564948312883 / 8796093022208) = Fin (16397107 / 32768)"
  unfolding to_float_def
  by (subst round_fp_eval [where e = 8 and h = 9 and z = 16397107])
     (simp_all add: round_ties_even_def Let_def floor_numeral_divide)

lemma float_lit_5004: "float_lit (5004 / 10) = Fin (16397107 / 32768)"
  unfolding float_lit_def to_double_5004 by (simp add: to_float_5004)

lemma float_lit_ints:
  "float_lit 0 = Fin 0" "float_lit 12 = Fin 12" "float_lit 50 = Fin 50" "float_lit 54 = Fin 54"
  "float_lit 100 = Fin 100" "float_lit 135 = Fin 135" "float_lit 150 = Fin 150"
  "float_lit 154 = Fin 154" "float_lit 200 = Fin 200" "float_lit 254 = Fin 254"
  "float_lit 300 = Fin 300" "float_lit 400 = Fin 400" "float_lit 424 = Fin 424"
  "float_lit 500 = Fin 500" "float_lit 504 = Fin 504" "float_lit 604 = Fin 604"
  using float_lit_of_int [of 0] float_lit_of_int [of 12] float_lit_of_int [of 50]
    float_lit_of_int [of 54] float_lit_of_int [of 100] float_lit_of_int [of 135]
    float_lit_of_int [of 150] float_lit_of_int [of 154] float_lit_of_int [of 200]
    float_lit_of_int [of 254] float_lit_of_int [of 300] float_lit_of_int [of 400]
    float_lit_of_int [of 424] float_lit_of_int [of 500] float_lit_of_int [of 504]
    float_lit_of_int [of 604]
  by simp_all

lemma BIN_PM10_eq: "BIN_PM10 = [Fin 0, Fin 0, Fin 54, Fin 154, Fin 254, Fin 135, Fin 424, Fin 504, Fin 604]"
  by (simp add: BIN_PM10_def float_lit_ints)


lemma BIN_PM25_eq:
  "BIN_PM25 = [Fin 0, Fin 0, Fin 12, Fin (4639949 / 131072), Fin (7261389 / 131072),
     Fin (4928307 / 32768), Fin (8205107 / 32768), Fin (11481907 / 32768),
     Fin (16397107 / 32768)]"
  unfolding BIN_PM25_def list.map float_lit_354 float_lit_554 float_lit_1504
    float_lit_2504 float_lit_3504 float_lit_5004
  by (simp add: float_lit_ints)




lemma in_bin_PM10:
  "in_bin BIN_PM10 1 (Fin q) = (0 \<le> q \<and> q \<le> 54)"
  "in_bin BIN_PM10 2 (Fin q) = (54 \<le> q \<and> q \<le> 154)"
  "in_bin BIN_PM10 3 (Fin q) = (154 \<le> q \<and> q \<le> 254)"
  "in_bin BIN_PM10 4 (Fin q) = (254 \<le> q \<and> q \<le> 135)"
  "in_bin BIN_PM10 5 (Fin q) = (135 \<le> q \<and> q \<le> 424)"
  "in_bin BIN_PM10 6 (Fin q) = (424 \<le> q \<and> q \<le> 504)"
  "in_bin BIN_PM10 7 (Fin q) = (504 \<le> q \<and> q \<le> 604)"
  by (simp_all add: in_bin_def fge_def BIN_PM10_eq)

lemma in_bin_PM25:
  "in_bin BIN_PM25 1 (Fin q) = (0 \<le> q \<and> q \<le> 12)"
  "in_bin BIN_PM25 2 (Fin q) = (12 \<le> q \<and> q \<le> 4639949 / 131072)"
  "in_bin BIN_PM25 3 (Fin q) = (4639949 / 131072 \<le> q \<and> q \<le> 7261389 / 131072)"
  "in_bin BIN_PM25 4 (Fin q) = (7261389 / 131072 \<le> q \<and> q \<le> 4928307 / 32768)"
  "in_bin BIN_PM25 5 (Fin q) = (4928307 / 32768 \<le> q \<and> q \<le> 8205107 / 32768)"
  "in_bin BIN_PM25 6 (Fin q) = (8205107 / 32768 \<le> q \<and> q \<le> 11481907 / 32768)"
  "in_bin BIN_PM25 7 (Fin q) = (11481907 / 32768 \<le> q \<and> q \<le> 16397107 / 32768)"
  by (simp_all add: in_bin_def fge_def BIN_PM25_eq)

text \<open>
  \<^bold>\<open>C10.\<close>  An input outside the table range matches no branch of the if/else chain, and
  the function returns 0, an ordinary result and no error: for \<^verbatim>\<open>calcAQIpm25\<close> every
  value below 0 or above 500.4, for \<^verbatim>\<open>calcAQIpm10\<close> every value below 0 or above 604,
  and for both a NaN (and the infinities).
\<close>

theorem calcAQI_outside_table_is_zero:
  "(outside_table (5004 / 10) pm \<longrightarrow> calcAQIpm25 pm = Some 0) \<and>
   (outside_table 604 pm \<longrightarrow> calcAQIpm10 pm = Some 0)"
proof (cases pm)
  case (Fin q)
  show ?thesis
    unfolding Fin calcAQIpm25_def calcAQIpm10_def in_bin_PM10 in_bin_PM25
    by (auto simp: trunc_rat_def)
qed (simp_all add: calcAQIpm25_def calcAQIpm10_def in_bin_def fge_def BIN_PM10_eq BIN_PM25_eq trunc_rat_def)


theorem calcAQI_outside_table_is_zero_witness:
  "outside_table (5004 / 10) NaN \<and> calcAQIpm25 NaN = Some 0 \<and>
   outside_table 604 (Fin 605) \<and> calcAQIpm10 (Fin 605) = Some 0 \<and>
   outside_table (5004 / 10) (Fin (- 1)) \<and> calcAQIpm25 (Fin (- 1)) = Some 0"
  using calcAQI_outside_table_is_zero [of NaN] calcAQI_outside_table_is_zero [of "Fin 605"]
    calcAQI_outside_table_is_zero [of "Fin (- 1)"]
  by simp



lemma calcAQIpm10_605: "calcAQIpm10 (Fin 605) = Some 0"
  unfolding calcAQIpm10_def in_bin_PM10
  by (simp add: trunc_rat_def)

section \<open>\<^verbatim>\<open>calcAQIpm10\<close> over the table range\<close>






lemma rounded_zero: "rounded p emin 0 = 0"
  by (simp add: rounded_def Let_def round_ties_even_def)


lemma rounded_exact:
  assumes x: "x = of_int m * 2 powi k"
    and k: "emin - (int p - 1) \<le> k"
    and m: "\<bar>x\<bar> < 2 powi (k + int p)"
  shows "rounded p emin x = x"
proof (cases "x = 0")
  case True
  then show ?thesis by (simp add: rounded_zero)
next
  case False
  define e where "e = max (binade x) emin"
  define q :: rat where "q = 2 powi (e - (int p - 1))"
  have "binade x < k + int p" using False m by (rule binade_less)
  then have ek: "e - (int p - 1) \<le> k" using k by (simp add: e_def)
  define j where "j = nat (k - (e - (int p - 1)))"
  have "(2::rat) powi k = 2 powi (e - (int p - 1)) * 2 powi (int j)"
    using ek by (simp add: j_def flip: power_int_add)
  then have "x / q = of_int (m * 2 ^ j)"
    using x by (simp add: q_def)
  moreover have "q \<noteq> 0" by (simp add: q_def)
  ultimately have "of_int (round_ties_even (x / q)) * q = x"
    by (simp only: round_ties_even_of_int) (simp add: nonzero_divide_eq_eq)
  then show ?thesis
    by (simp add: rounded_def Let_def flip: e_def q_def)
qed



























lemma rounded_halves:
  "rounded 24 (- 126) (1 / 2) = 1 / 2"
proof (rule rounded_exact [where m = 1 and k = "- 1"])
  show "(1 / 2 :: rat) = of_int 1 * 2 powi (- 1)" by (simp add: power_int_minus)
  show "- 126 - (int 24 - 1) \<le> - 1" by simp
  show "\<bar>1 / 2 :: rat\<bar> < 2 powi (- 1 + int 24)" by simp
qed






















section \<open>The frame, step by step\<close>

lemma memcpy_window:
  assumes len: "length y0 = W * H" and i: "i + 2 \<le> H"
  shows "memcpy (take (i * W) (drop W y0) @ drop (i * W) y0) (i * W) ((i + 1) * W) W
         = Some (take ((i + 1) * W) (drop W y0) @ drop ((i + 1) * W) y0)"
proof -
  have b1: "(i + 2) * W \<le> W * H" using i by (metis mult.commute mult_le_mono1)
  have b2: "i * W + W + W \<le> length y0" using b1 len by (simp add: algebra_simps)
  define A where "A = take (i * W) (drop W y0)"
  define B where "B = drop (i * W) y0"
  have lA: "length A = i * W" using b2 by (simp add: A_def)
  have lB: "W + W \<le> length B" using b2 by (simp add: B_def)
  have e: "(i + 1) * W = i * W + W" by simp
  have t: "take (i * W) (A @ B) = A" using lA by simp
  have d1: "drop (i * W + W) (A @ B) = drop W B" using lA by simp
  have d2: "drop W B = drop (i * W + W) y0" by (simp add: B_def add.commute)
  have "take (i * W + W) (drop W y0) = A @ take W (drop (i * W) (drop W y0))"
    unfolding A_def by (rule take_add)
  also have "drop (i * W) (drop W y0) = drop (i * W + W) y0" by (simp add: add.commute)
  finally have A2: "take (i * W + W) (drop W y0) = A @ take W (drop (i * W + W) y0)" .
  have "memcpy (A @ B) (i * W) (i * W + W) W =
        Some (take (i * W) (A @ B) @ take W (drop (i * W + W) (A @ B)) @ drop (i * W + W) (A @ B))"
    using lA lB by (simp add: memcpy_def)
  then have "memcpy (A @ B) (i * W) (i * W + W) W =
        Some (A @ take W (drop (i * W + W) y0) @ drop (i * W + W) y0)"
    by (simp only: t d1 d2)
  then show ?thesis
    unfolding e A2 A_def [symmetric] B_def [symmetric] by simp
qed

lemma shift_loop_from:
  assumes len: "length y0 = BUFFER_SIZE P * N_ROLLING_HISTORY P"
    and H: "1 \<le> N_ROLLING_HISTORY P"
  shows "i \<le> N_ROLLING_HISTORY P - 1 \<Longrightarrow>
         shift_loop P i (take (i * BUFFER_SIZE P) (drop (BUFFER_SIZE P) y0) @ drop (i * BUFFER_SIZE P) y0)
         = Some (drop (BUFFER_SIZE P) y0 @ drop ((N_ROLLING_HISTORY P - 1) * BUFFER_SIZE P) y0)"
proof (induction "N_ROLLING_HISTORY P - 1 - i" arbitrary: i)
  case 0
  then have i: "i = N_ROLLING_HISTORY P - 1" by simp
  have "length (drop (BUFFER_SIZE P) y0) = (N_ROLLING_HISTORY P - 1) * BUFFER_SIZE P"
    using len H by (simp add: algebra_simps)
  then show ?case
    unfolding i by (subst shift_loop.simps) simp
next
  case (Suc n)
  then have i: "i + 2 \<le> N_ROLLING_HISTORY P" by simp
  have step: "shift_loop P (i + 1)
      (take ((i + 1) * BUFFER_SIZE P) (drop (BUFFER_SIZE P) y0) @ drop ((i + 1) * BUFFER_SIZE P) y0)
      = Some (drop (BUFFER_SIZE P) y0 @ drop ((N_ROLLING_HISTORY P - 1) * BUFFER_SIZE P) y0)"
    using Suc.hyps(2) i by (intro Suc.hyps(1)) simp_all
  have lt: "i < N_ROLLING_HISTORY P - 1" using i by simp
  show ?case
    by (subst shift_loop.simps) (simp only: lt if_True memcpy_window [OF len i] option.case step)
qed

lemma shift_loop_correct:
  assumes "length y0 = BUFFER_SIZE P * N_ROLLING_HISTORY P" "1 \<le> N_ROLLING_HISTORY P"
  shows "shift_loop P 0 y0 =
         Some (drop (BUFFER_SIZE P) y0 @ drop ((N_ROLLING_HISTORY P - 1) * BUFFER_SIZE P) y0)"
  using shift_loop_from [OF assms, of 0] by simp


lemma count_sample_fields:
  "ii (count_sample P m g) = ii g + 1"
  "i2s_rx (count_sample P m g) = i2s_rx g"
  "bytes_read (count_sample P m g) = bytes_read g"
  "mel_data (count_sample P m g) = mel_data g"
  "calls (trace (count_sample P m g)) = calls (trace g)"
  by (simp_all add: count_sample_def emit_def calls_def Let_def)

lemma count_samples_fields:
  "ii (count_samples P m k g) = ii g + of_nat k"
  "i2s_rx (count_samples P m k g) = i2s_rx g"
  "bytes_read (count_samples P m k g) = bytes_read g"
  "mel_data (count_samples P m k g) = mel_data g"
  "calls (trace (count_samples P m k g)) = calls (trace g)"
  by (induction k arbitrary: g) (simp_all add: count_sample_fields)

lemma normalize_loop_from:
  assumes H: "1 \<le> N_ROLLING_HISTORY P" and SR: "SAMPLE_RATE P \<noteq> 0"
    and buf: "length buf = BUFFER_SIZE P"
  shows "i \<le> BUFFER_SIZE P \<Longrightarrow> length y = BUFFER_SIZE P * N_ROLLING_HISTORY P \<Longrightarrow>
         normalize_loop P m buf i (y, g) =
           Some (take (BUFFER_SIZE P * (N_ROLLING_HISTORY P - 1) + i) y @ map normalize (drop i buf),
                 count_samples P m (BUFFER_SIZE P - i) g)"
proof (induction "BUFFER_SIZE P - i" arbitrary: i y g)
  case 0
  then have i: "i = BUFFER_SIZE P" by simp
  have "BUFFER_SIZE P * (N_ROLLING_HISTORY P - 1) + BUFFER_SIZE P = BUFFER_SIZE P * N_ROLLING_HISTORY P"
    using H by (simp add: algebra_simps)
  then show ?case
    unfolding i using 0 buf by (subst normalize_loop.simps) simp
next
  case (Suc n)
  define W where "W = BUFFER_SIZE P"
  define k where "k = W * (N_ROLLING_HISTORY P - 1) + i"
  have lt: "i < BUFFER_SIZE P" using Suc.hyps(2) by simp
  have "W * (N_ROLLING_HISTORY P - 1) + W = W * N_ROLLING_HISTORY P"
    using H by (simp add: algebra_simps)
  then have klen: "k < length y" using lt Suc.prems(2) by (simp add: k_def W_def)
  have idx: "int (BUFFER_SIZE P) * (int (N_ROLLING_HISTORY P) - 1) + int i = int k"
    using H by (simp add: k_def W_def of_nat_diff)
  have ih: "normalize_loop P m buf (i + 1) (y[k := normalize (buf ! i)], count_sample P m g) =
      Some (take (BUFFER_SIZE P * (N_ROLLING_HISTORY P - 1) + (i + 1)) (y[k := normalize (buf ! i)])
              @ map normalize (drop (i + 1) buf),
            count_samples P m (BUFFER_SIZE P - (i + 1)) (count_sample P m g))"
    using Suc.hyps(2) lt Suc.prems(2) by (intro Suc.hyps(1)) simp_all
  have t: "take (BUFFER_SIZE P * (N_ROLLING_HISTORY P - 1) + (i + 1)) (y[k := normalize (buf ! i)])
        = take k y @ [normalize (buf ! i)]"
  proof -
    have "take (Suc k) (y[k := normalize (buf ! i)]) = take k (y[k := normalize (buf ! i)]) @ [(y[k := normalize (buf ! i)]) ! k]"
      using klen by (simp add: take_Suc_conv_app_nth)
    then show ?thesis using klen by (simp add: k_def W_def)
  qed
  have d: "drop i buf = buf ! i # drop (i + 1) buf"
    using lt buf by (simp add: Cons_nth_drop_Suc)
  have c: "count_samples P m (BUFFER_SIZE P - (i + 1)) (count_sample P m g)
         = count_samples P m (BUFFER_SIZE P - i) g"
  proof -
    have "BUFFER_SIZE P - i = Suc (BUFFER_SIZE P - (i + 1))" using lt by simp
    then show ?thesis by simp
  qed
  have cond: "i < length buf \<and> 0 \<le> int k \<and> int k < int (length y) \<and> SAMPLE_RATE P \<noteq> 0"
    using lt buf klen SR by simp
  show ?case
    apply (subst normalize_loop.simps)
    apply (simp only: lt if_True idx Let_def cond nat_int fst_conv snd_conv ih t c)
    apply (simp add: d k_def W_def)
    done
qed

lemma i2s_read_window:
  assumes "BUFFER_SIZE P \<le> length (i2s_rx g)"
  shows "i2s_read g (replicate (BUFFER_SIZE P) 0) (BUFFER_SIZE P * 2) portMAX_DELAY =
         Some (take (BUFFER_SIZE P) (i2s_rx g),
               emit (I2S_READ (BUFFER_SIZE P * 2) portMAX_DELAY)
                 (g\<lparr>i2s_rx := drop (BUFFER_SIZE P) (i2s_rx g), bytes_read := 2 * BUFFER_SIZE P\<rparr>))"
  using assms by (simp add: i2s_read_def Let_def min_absorb1)

lemma copy_loop_from:
  "i \<le> length p_it \<Longrightarrow> length p_it \<le> length leds \<Longrightarrow>
   copy_loop leds i (p_it, g) =
     Some (take i p_it @ map to_Color (drop i (take (length p_it) leds)),
           g\<lparr>trace := trace g @ map (\<lambda>j. LIGHT_SET j (to_Color (leds ! j))) [i..<length p_it]\<rparr>)"
proof (induction "length p_it - i" arbitrary: i p_it g)
  case 0
  then show ?case by (subst copy_loop.simps) simp
next
  case (Suc n)
  have lt: "i < length p_it" using Suc.hyps(2) by simp
  have lt2: "i < length leds" using lt Suc.prems(2) by simp
  define c where "c = to_Color (leds ! i)"
  have ih: "copy_loop leds (i + 1) (p_it[i := c], emit (LIGHT_SET i c) g) =
      Some (take (i + 1) (p_it[i := c]) @ map to_Color (drop (i + 1) (take (length (p_it[i := c])) leds)),
            (emit (LIGHT_SET i c) g)\<lparr>trace := trace (emit (LIGHT_SET i c) g) @
               map (\<lambda>j. LIGHT_SET j (to_Color (leds ! j))) [i + 1..<length (p_it[i := c])]\<rparr>)"
    using Suc.hyps(2) lt Suc.prems(2) by (intro Suc.hyps(1)) simp_all
  have t: "take (i + 1) (p_it[i := c]) = take i p_it @ [c]"
    using lt by (simp add: take_Suc_conv_app_nth)
  have d: "drop i (take (length p_it) leds) = leds ! i # drop (i + 1) (take (length p_it) leds)"
    using lt lt2 by (simp add: Cons_nth_drop_Suc [symmetric])
  have u: "[i..<length p_it] = i # [i + 1..<length p_it]"
    using lt by (simp add: upt_conv_Cons)
  show ?case
    apply (subst copy_loop.simps)
    apply (simp only: fst_conv snd_conv lt lt2 if_True c_def [symmetric] ih t)
    apply (simp add: d u c_def emit_def)
    done
qed

lemma copy_loop_correct:
  assumes "length p_it \<le> length leds"
  shows "copy_loop leds 0 (p_it, g) =
     Some (map to_Color (take (length p_it) leds),
           g\<lparr>trace := trace g @ map (\<lambda>j. LIGHT_SET j (to_Color (leds ! j))) [0..<length p_it]\<rparr>)"
  using copy_loop_from [of 0 p_it leds g] assms by simp

lemma dispatch_eq:
  "dispatch C m e mel leds g =
     (fst (visualized C m e mel leds), snd (visualized C m e mel leds),
      g\<lparr>trace := trace g @ visualize_call m\<rparr>)"
  by (cases m) (simp_all add: dispatch_def emit_def split: prod.splits)


lemma ingest_steps:
  assumes "frame_ready P g this"
  shows "shift_loop P 0 (y_data this) =
           Some (drop (BUFFER_SIZE P) (y_data this)
                 @ drop ((N_ROLLING_HISTORY P - 1) * BUFFER_SIZE P) (y_data this))"
    and "normalize_loop P m (take (BUFFER_SIZE P) (i2s_rx g)) 0
           (drop (BUFFER_SIZE P) (y_data this)
              @ drop ((N_ROLLING_HISTORY P - 1) * BUFFER_SIZE P) (y_data this), g1) =
           Some (ingested P g this, count_samples P m (BUFFER_SIZE P) g1)"
proof -
  have H: "1 \<le> N_ROLLING_HISTORY P" and SR: "SAMPLE_RATE P \<noteq> 0"
    and len: "length (y_data this) = BUFFER_SIZE P * N_ROLLING_HISTORY P"
    and rx: "BUFFER_SIZE P \<le> length (i2s_rx g)"
    using assms by (simp_all add: frame_ready_def)
  show "shift_loop P 0 (y_data this) =
           Some (drop (BUFFER_SIZE P) (y_data this)
                 @ drop ((N_ROLLING_HISTORY P - 1) * BUFFER_SIZE P) (y_data this))"
    using len H by (rule shift_loop_correct)
  define y1 where "y1 = drop (BUFFER_SIZE P) (y_data this)
                 @ drop ((N_ROLLING_HISTORY P - 1) * BUFFER_SIZE P) (y_data this)"
  have e: "BUFFER_SIZE P * (N_ROLLING_HISTORY P - 1) + BUFFER_SIZE P
           = BUFFER_SIZE P * N_ROLLING_HISTORY P"
    using H by (simp add: algebra_simps)
  have l0: "length (drop (BUFFER_SIZE P) (y_data this)) = BUFFER_SIZE P * (N_ROLLING_HISTORY P - 1)"
    using len e by simp
  have l1: "length y1 = BUFFER_SIZE P * N_ROLLING_HISTORY P"
    using len e by (simp add: y1_def algebra_simps)
  have lb: "length (take (BUFFER_SIZE P) (i2s_rx g)) = BUFFER_SIZE P"
    using rx by simp
  have "normalize_loop P m (take (BUFFER_SIZE P) (i2s_rx g)) 0 (y1, g1) =
          Some (take (BUFFER_SIZE P * (N_ROLLING_HISTORY P - 1) + 0) y1
                  @ map normalize (drop 0 (take (BUFFER_SIZE P) (i2s_rx g))),
                count_samples P m (BUFFER_SIZE P - 0) g1)"
    using H SR lb _ l1 by (rule normalize_loop_from) simp
  moreover have "take (BUFFER_SIZE P * (N_ROLLING_HISTORY P - 1) + 0) y1
      = drop (BUFFER_SIZE P) (y_data this)"
    using l0 by (simp add: y1_def)
  ultimately show "normalize_loop P m (take (BUFFER_SIZE P) (i2s_rx g)) 0
           (drop (BUFFER_SIZE P) (y_data this)
              @ drop ((N_ROLLING_HISTORY P - 1) * BUFFER_SIZE P) (y_data this), g1) =
           Some (ingested P g this, count_samples P m (BUFFER_SIZE P) g1)"
    by (simp add: y1_def ingested_def)
qed

lemma ShowFrame_eq:
  assumes ready: "frame_ready P g this"
    and keeps: "keeps_length C m"
    and light: "length p_it \<le> length (physic_leds this)"
  defines "y2 \<equiv> ingested P g this"
    and "g2 \<equiv> count_samples P m (BUFFER_SIZE P)
                 (emit (I2S_READ (BUFFER_SIZE P * 2) portMAX_DELAY)
                    (g\<lparr>i2s_rx := drop (BUFFER_SIZE P) (i2s_rx g),
                       bytes_read := 2 * BUFFER_SIZE P\<rparr>))"
  defines "mel \<equiv> snd (t2mel C (fft this) y2)"
  defines "v \<equiv> visualized C m (effect this) mel (physic_leds this)"
  shows "ShowFrame P C m p_it (g, this) =
     Some (g2\<lparr>mel_data := mel,
              trace := trace g2 @ [T2MEL] @ visualize_call m
                         @ map (\<lambda>j. LIGHT_SET j (to_Color (snd v ! j))) [0..<length p_it]\<rparr>,
           this\<lparr>y_data := y2, physic_leds := snd v, fft := fst (t2mel C (fft this) y2),
                effect := fst v\<rparr>,
           map to_Color (take (length p_it) (snd v)))"
proof -
  have rx: "BUFFER_SIZE P \<le> length (i2s_rx g)"
    using ready by (simp add: frame_ready_def)
  have lv: "length p_it \<le> length (snd v)"
    using keeps light by (simp add: keeps_length_def v_def)
  obtain f' mel' where t: "t2mel C (fft this) (ingested P g this) = (f', mel')"
    by (cases "t2mel C (fft this) (ingested P g this)")
  obtain e' leds' where vv: "visualized C m (effect this) mel' (physic_leds this) = (e', leds')"
    by (cases "visualized C m (effect this) mel' (physic_leds this)")
  have mel: "mel = mel'" by (simp add: mel_def y2_def t)
  have v: "v = (e', leds')" by (simp add: v_def mel vv)
  have lv': "length p_it \<le> length leds'" using lv v by simp
  define g1 where "g1 = emit (I2S_READ (BUFFER_SIZE P * 2) portMAX_DELAY)
                    (g\<lparr>i2s_rx := drop (BUFFER_SIZE P) (i2s_rx g),
                       bytes_read := 2 * BUFFER_SIZE P\<rparr>)"
  have s2: "i2s_read g (replicate (BUFFER_SIZE P) 0) (BUFFER_SIZE P * 2) portMAX_DELAY =
      Some (take (BUFFER_SIZE P) (i2s_rx g), g1)"
    unfolding g1_def using rx by (rule i2s_read_window)
  have s3: "normalize_loop P m (take (BUFFER_SIZE P) (i2s_rx g)) 0
           (drop (BUFFER_SIZE P) (y_data this)
              @ drop ((N_ROLLING_HISTORY P - 1) * BUFFER_SIZE P) (y_data this), g1) =
           Some (ingested P g this, g2)"
    unfolding g2_def g1_def [symmetric] using ready by (rule ingest_steps(2))
  have s4: "dispatch C m (effect this) mel' (physic_leds this) (emit T2MEL (g2\<lparr>mel_data := mel'\<rparr>))
      = (e', leds', (emit T2MEL (g2\<lparr>mel_data := mel'\<rparr>))
           \<lparr>trace := trace (emit T2MEL (g2\<lparr>mel_data := mel'\<rparr>)) @ visualize_call m\<rparr>)"
    by (simp add: dispatch_eq vv)
  show ?thesis
    unfolding ShowFrame_def
    apply (simp only: prod.case ingest_steps(1) [OF ready] option.case s2 s3 t s4
        copy_loop_correct [OF lv'])
    apply (simp add: mel v emit_def y2_def t)
    done
qed

lemma count_sample_trace:
  "\<exists>es. trace (count_sample P m g) = trace g @ es \<and> (\<forall>e\<in>set es. is_LOGD e)"
  by (simp add: count_sample_def emit_def Let_def)

lemma count_samples_trace:
  "\<exists>es. trace (count_samples P m k g) = trace g @ es \<and> (\<forall>e\<in>set es. is_LOGD e)"
proof (induction k arbitrary: g)
  case 0
  show ?case by simp
next
  case (Suc k)
  obtain es where es: "trace (count_sample P m g) = trace g @ es" "\<forall>e\<in>set es. is_LOGD e"
    using count_sample_trace by blast
  obtain fs where fs: "trace (count_samples P m k (count_sample P m g)) = trace (count_sample P m g) @ fs"
      "\<forall>e\<in>set fs. is_LOGD e"
    using Suc.IH by blast
  have "trace (count_samples P m (Suc k) g) = trace g @ (es @ fs)" using es fs by simp
  moreover have "\<forall>e\<in>set (es @ fs). is_LOGD e" using es fs by auto
  ultimately show ?case by blast
qed

lemma filter_logs:
  assumes "\<forall>e\<in>set es. is_LOGD e"
  shows "calls es = []" "filter is_VISUALIZE es = []" "filter is_LIGHT_SET es = []"
proof -
  have "\<And>e. is_LOGD e \<Longrightarrow> \<not> is_VISUALIZE e \<and> \<not> is_LIGHT_SET e"
    by (case_tac e) simp_all
  then show "calls es = []" "filter is_VISUALIZE es = []" "filter is_LIGHT_SET es = []"
    using assms by (auto simp: calls_def filter_empty_conv)
qed

lemma calls_append: "calls (xs @ ys) = calls xs @ calls ys"
  by (simp add: calls_def)

lemma calls_visualize_call: "calls (visualize_call m) = visualize_call m"
  by (cases m) (simp_all add: calls_def)

lemma calls_light_sets: "calls (map (\<lambda>j. LIGHT_SET j (f j)) js) = map (\<lambda>j. LIGHT_SET j (f j)) js"
  by (induction js) (simp_all add: calls_def)

lemma keeps_length_other: "keeps_length C (MODE_OTHER v)"
  by (simp add: keeps_length_def)

text \<open>The frame, in one equation for each component of the result.\<close>

lemma ShowFrame_result:
  assumes ready: "frame_ready P g this"
    and keeps: "keeps_length C m"
    and light: "length p_it \<le> length (physic_leds this)"
  shows "\<exists>g' this' light' logs.
     ShowFrame P C m p_it (g, this) = Some (g', this', light') \<and>
     y_data this' = ingested P g this \<and>
     fft this' = fst (t2mel C (fft this) (ingested P g this)) \<and>
     mel_data g' = snd (t2mel C (fft this) (ingested P g this)) \<and>
     effect this' = fst (visualized C m (effect this) (mel_data g') (physic_leds this)) \<and>
     physic_leds this' = snd (visualized C m (effect this) (mel_data g') (physic_leds this)) \<and>
     n_pixels this' = n_pixels this \<and> pin_config this' = pin_config this \<and>
     light' = map to_Color (take (length p_it) (physic_leds this')) \<and>
     length p_it \<le> length (physic_leds this') \<and>
     i2s_rx g' = drop (BUFFER_SIZE P) (i2s_rx g) \<and>
     bytes_read g' = 2 * BUFFER_SIZE P \<and>
     ii g' = ii g + of_nat (BUFFER_SIZE P) \<and>
     (\<forall>e\<in>set logs. is_LOGD e) \<and>
     trace g' = trace g @ [I2S_READ (BUFFER_SIZE P * 2) portMAX_DELAY] @ logs @ [T2MEL]
                  @ visualize_call m
                  @ map (\<lambda>j. LIGHT_SET j (to_Color (physic_leds this' ! j))) [0..<length p_it]"
proof -
  define y2 where "y2 = ingested P g this"
  define g1 where "g1 = emit (I2S_READ (BUFFER_SIZE P * 2) portMAX_DELAY)
                    (g\<lparr>i2s_rx := drop (BUFFER_SIZE P) (i2s_rx g),
                       bytes_read := 2 * BUFFER_SIZE P\<rparr>)"
  define g2 where "g2 = count_samples P m (BUFFER_SIZE P) g1"
  define mel where "mel = snd (t2mel C (fft this) y2)"
  define v where "v = visualized C m (effect this) mel (physic_leds this)"
  define G where "G = g2\<lparr>mel_data := mel,
              trace := trace g2 @ [T2MEL] @ visualize_call m
                         @ map (\<lambda>j. LIGHT_SET j (to_Color (snd v ! j))) [0..<length p_it]\<rparr>"
  define T where "T = this\<lparr>y_data := y2, physic_leds := snd v,
      fft := fst (t2mel C (fft this) y2), effect := fst v\<rparr>"
  define L where "L = map to_Color (take (length p_it) (snd v))"
  have eq: "ShowFrame P C m p_it (g, this) = Some (G, T, L)"
    unfolding G_def T_def L_def v_def mel_def g2_def g1_def y2_def
    using ready keeps light by (rule ShowFrame_eq)
  obtain logs where logs: "trace g2 = trace g1 @ logs" "\<forall>e\<in>set logs. is_LOGD e"
    unfolding g2_def using count_samples_trace by blast
  have t1: "trace g1 = trace g @ [I2S_READ (BUFFER_SIZE P * 2) portMAX_DELAY]"
    by (simp add: g1_def emit_def)
  have lv: "length p_it \<le> length (snd v)"
    using keeps light by (simp add: keeps_length_def v_def)
  have f1: "y_data T = ingested P g this" by (simp add: T_def y2_def)
  have f2: "fft T = fst (t2mel C (fft this) (ingested P g this))" by (simp add: T_def y2_def)
  have f3: "mel_data G = snd (t2mel C (fft this) (ingested P g this))"
    by (simp add: G_def mel_def y2_def)
  have f3': "mel_data G = mel" by (simp add: G_def)
  have f4: "effect T = fst (visualized C m (effect this) (mel_data G) (physic_leds this))"
    unfolding f3' by (simp add: T_def v_def)
  have f5: "physic_leds T = snd (visualized C m (effect this) (mel_data G) (physic_leds this))"
    unfolding f3' by (simp add: T_def v_def)
  have f5': "physic_leds T = snd v" by (simp add: T_def)
  have f6: "n_pixels T = n_pixels this \<and> pin_config T = pin_config this" by (simp add: T_def)
  have f7: "L = map to_Color (take (length p_it) (physic_leds T))" by (simp add: L_def f5')
  have f8: "length p_it \<le> length (physic_leds T)" using lv by (simp add: f5')
  have f9: "i2s_rx G = drop (BUFFER_SIZE P) (i2s_rx g)"
    by (simp add: G_def g2_def count_samples_fields g1_def emit_def)
  have f10: "bytes_read G = 2 * BUFFER_SIZE P"
    by (simp add: G_def g2_def count_samples_fields g1_def emit_def)
  have f11: "ii G = ii g + of_nat (BUFFER_SIZE P)"
    by (simp add: G_def g2_def count_samples_fields g1_def emit_def)
  have f12: "trace G = trace g @ [I2S_READ (BUFFER_SIZE P * 2) portMAX_DELAY] @ logs @ [T2MEL]
                  @ visualize_call m
                  @ map (\<lambda>j. LIGHT_SET j (to_Color (physic_leds T ! j))) [0..<length p_it]"
    by (simp add: G_def logs(1) t1 f5')
  show ?thesis
    using eq f1 f2 f3 f4 f5 f6 f7 f8 f9 f10 f11 logs(2) f12 by blast
qed

text \<open>
  Without a full window to come, the read without timeout never returns, and neither
  does the frame.
\<close>

lemma i2s_read_blocks:
  assumes "length (i2s_rx g) < BUFFER_SIZE P"
  shows "i2s_read g (replicate (BUFFER_SIZE P) 0) (BUFFER_SIZE P * 2) portMAX_DELAY = None"
  using assms by (simp add: i2s_read_def Let_def)

lemma ShowFrame_blocks:
  assumes "length (i2s_rx g) < BUFFER_SIZE P"
  shows "ShowFrame P C m p_it (g, this) = None"
  unfolding ShowFrame_def
  by (simp add: i2s_read_blocks [OF assms] split: option.splits)

section \<open>Normalization of the samples\<close>

lemma sample_quotient_bounds:
  fixes s :: int16
  shows "- 1 \<le> (of_int (sint s) / 32768 :: rat)" "(of_int (sint s) / 32768 :: rat) < 1"
proof -
  have lo: "- (2 ^ 15) \<le> sint s" and hi: "sint s < 2 ^ 15"
    using sint_ge [of s] sint_lt [of s] by simp_all
  have "(of_int (- (2 ^ 15)) :: rat) \<le> of_int (sint s)" using lo by (simp only: of_int_le_iff)
  then show "- 1 \<le> (of_int (sint s) / 32768 :: rat)" by simp
  have "(of_int (sint s) :: rat) < of_int (2 ^ 15)" using hi by (simp only: of_int_less_iff)
  then show "(of_int (sint s) / 32768 :: rat) < 1" by simp
qed

lemma round_sample_quotient:
  fixes s :: int16
  defines "x \<equiv> (of_int (sint s) / 32768 :: rat)"
  shows "to_double x = Fin x" "to_float x = Fin x"
proof -
  have ax: "\<bar>x\<bar> \<le> 1"
    using sample_quotient_bounds [of s] by (simp add: x_def abs_le_iff)
  have x: "x = of_int (sint s) * 2 powi (- 15)"
    by (simp add: x_def power_int_minus field_simps)
  show "to_double x = Fin x"
    unfolding to_double_def
  proof (rule round_fp_exact [where m = "sint s" and k = "- 15"])
    show "x = of_int (sint s) * 2 powi (- 15)" by (rule x)
    show "- 1022 - (int 53 - 1) \<le> - 15" by simp
    show "\<bar>x\<bar> < 2 powi (- 15 + int 53)" by (rule unit_bound [OF ax]) simp
    show "\<bar>x\<bar> < 2 powi (1023 + 1)" by (rule unit_bound [OF ax]) simp
  qed
  show "to_float x = Fin x"
    unfolding to_float_def
  proof (rule round_fp_exact [where m = "sint s" and k = "- 15"])
    show "x = of_int (sint s) * 2 powi (- 15)" by (rule x)
    show "- 126 - (int 24 - 1) \<le> - 15" by simp
    show "\<bar>x\<bar> < 2 powi (- 15 + int 24)" by (rule unit_bound [OF ax]) simp
    show "\<bar>x\<bar> < 2 powi (127 + 1)" by (rule unit_bound [OF ax]) simp
  qed
qed

lemma normalize_value: "normalize s = Fin (of_int (sint s) / 32768)"
proof -
  have "\<bar>sint s\<bar> < 2 ^ 24"
    using sint_ge [of s] sint_lt [of s] by simp
  then have a: "to_double (of_int (sint s)) = Fin (of_int (sint s))"
    by (rule to_double_of_int)
  have b: "to_double 32768 = Fin 32768"
    using to_double_of_int [of 32768] by simp
  have c: "fp_div to_double (Fin (of_int (sint s))) (Fin 32768)
      = to_double (of_int (sint s) / 32768)"
    by simp
  show ?thesis
    unfolding normalize_def a b c round_sample_quotient(1) narrow.simps
    by (rule round_sample_quotient(2))
qed


section \<open>The frame as a whole\<close>

lemma ingested_parts:
  assumes "frame_ready P g this"
  shows "length (ingested P g this) = N_ROLLING_HISTORY P * BUFFER_SIZE P"
    and "take ((N_ROLLING_HISTORY P - 1) * BUFFER_SIZE P) (ingested P g this)
           = drop (BUFFER_SIZE P) (y_data this)"
    and "drop ((N_ROLLING_HISTORY P - 1) * BUFFER_SIZE P) (ingested P g this)
           = map normalize (take (BUFFER_SIZE P) (i2s_rx g))"
proof -
  have H: "1 \<le> N_ROLLING_HISTORY P"
    and len: "length (y_data this) = BUFFER_SIZE P * N_ROLLING_HISTORY P"
    and rx: "BUFFER_SIZE P \<le> length (i2s_rx g)"
    using assms by (simp_all add: frame_ready_def)
  have e: "(N_ROLLING_HISTORY P - 1) * BUFFER_SIZE P + BUFFER_SIZE P
           = N_ROLLING_HISTORY P * BUFFER_SIZE P"
    using H by (simp add: algebra_simps)
  define A where "A = drop (BUFFER_SIZE P) (y_data this)"
  define B where "B = map normalize (take (BUFFER_SIZE P) (i2s_rx g))"
  have lA: "length A = (N_ROLLING_HISTORY P - 1) * BUFFER_SIZE P"
    using len e by (simp add: A_def mult.commute)
  have lB: "length B = BUFFER_SIZE P" using rx by (simp add: B_def)
  have i: "ingested P g this = A @ B" by (simp add: ingested_def A_def B_def)
  show "length (ingested P g this) = N_ROLLING_HISTORY P * BUFFER_SIZE P"
    unfolding i using lA lB e by simp
  show "take ((N_ROLLING_HISTORY P - 1) * BUFFER_SIZE P) (ingested P g this)
           = drop (BUFFER_SIZE P) (y_data this)"
    unfolding i A_def [symmetric] using lA by simp
  show "drop ((N_ROLLING_HISTORY P - 1) * BUFFER_SIZE P) (ingested P g this)
           = map normalize (take (BUFFER_SIZE P) (i2s_rx g))"
    unfolding i B_def [symmetric] using lA by simp
qed

lemma ex_ready: "frame_ready P0 g0 this0"
  by (simp add: frame_ready_def P0_def g0_def this0_def)

lemma ex_keeps: "keeps_length C0 m"
  by (cases m) (simp_all add: keeps_length_def C0_def)

lemma ex_light: "length light0 \<le> length (physic_leds this0)"
  by (simp add: light0_def this0_def)

lemma ex_ingested:
  "ingested P0 g0 this0 = [Fin (1 / 4), Fin 1, Fin (- 1), Fin (32767 / 32768)]"
  by (simp add: ingested_def P0_def g0_def this0_def normalize_value)

text \<open>
  \<^bold>\<open>C1.\<close>  A frame shifts the rolling sample buffer left by one window and appends the
  normalized new window: afterwards the buffer still has
  \<^verbatim>\<open>N_ROLLING_HISTORY * BUFFER_SIZE\<close> samples, its first
  \<^verbatim>\<open>(N_ROLLING_HISTORY - 1) * BUFFER_SIZE\<close> positions hold what was at the positions from
  \<^verbatim>\<open>BUFFER_SIZE\<close> on, and its last \<^verbatim>\<open>BUFFER_SIZE\<close> positions hold the normalized samples
  just captured.
\<close>

theorem ShowFrame_shifts_and_appends:
  assumes "frame_ready P g this" and "keeps_length C m"
    and "length p_it \<le> length (physic_leds this)"
  shows "\<exists>g' this' light'.
     ShowFrame P C m p_it (g, this) = Some (g', this', light') \<and>
     length (y_data this') = N_ROLLING_HISTORY P * BUFFER_SIZE P \<and>
     take ((N_ROLLING_HISTORY P - 1) * BUFFER_SIZE P) (y_data this')
       = drop (BUFFER_SIZE P) (y_data this) \<and>
     drop ((N_ROLLING_HISTORY P - 1) * BUFFER_SIZE P) (y_data this')
       = map normalize (take (BUFFER_SIZE P) (i2s_rx g))"
proof -
  obtain g' this' light' where
    "ShowFrame P C m p_it (g, this) = Some (g', this', light')"
    "y_data this' = ingested P g this"
    using ShowFrame_result [OF assms] by blast
  then show ?thesis
    using ingested_parts [OF assms(1)] by simp
qed

text \<open>
  The small configuration: the old buffer \<open>[0, 1/2, 1/4, 1]\<close> and the captured samples
  \<open>-32768, 32767\<close>.
\<close>

theorem ShowFrame_shifts_and_appends_witness:
  "frame_ready P0 g0 this0 \<and> keeps_length C0 MODE_ENERGY \<and>
   length light0 \<le> length (physic_leds this0) \<and>
   (\<exists>g' this' light'.
      ShowFrame P0 C0 MODE_ENERGY light0 (g0, this0) = Some (g', this', light') \<and>
      length (y_data this') = 4 \<and>
      take 2 (y_data this') = [Fin (1 / 4), Fin 1] \<and>
      drop 2 (y_data this') = [Fin (- 1), Fin (32767 / 32768)])"
  using ShowFrame_shifts_and_appends [OF ex_ready ex_keeps ex_light, of MODE_ENERGY]
    ex_ready ex_keeps ex_light
  by (simp add: P0_def g0_def this0_def normalize_value)

text \<open>
  \<^bold>\<open>C2.\<close>  One invocation of \<^verbatim>\<open>ShowFrame\<close> is one frame.  Its calls are, in this order and
  once each: one read of \<^verbatim>\<open>BUFFER_SIZE * 2\<close> bytes without timeout, the spectral
  transform, the visualization selected by the mode (none for an unrecognized mode), and
  the writes to the light buffer.  The read consumes exactly one window; the buffer
  passed to the transform is the shifted buffer with the normalized window in its newest
  slot; the transform's result overwrites the mel-energy vector; the visualization gets
  that vector; the light buffer receives the pixel frame.
\<close>

theorem ShowFrame_one_frame:
  assumes "frame_ready P g this" and "keeps_length C m"
    and "length p_it \<le> length (physic_leds this)"
  shows "\<exists>g' this' light'.
     ShowFrame P C m p_it (g, this) = Some (g', this', light') \<and>
     calls (trace g') =
       calls (trace g) @ [I2S_READ (BUFFER_SIZE P * 2) portMAX_DELAY, T2MEL]
         @ visualize_call m
         @ map (\<lambda>j. LIGHT_SET j (to_Color (physic_leds this' ! j))) [0..<length p_it] \<and>
     i2s_rx g' = drop (BUFFER_SIZE P) (i2s_rx g) \<and>
     bytes_read g' = 2 * BUFFER_SIZE P \<and>
     y_data this' =
       drop (BUFFER_SIZE P) (y_data this) @ map normalize (take (BUFFER_SIZE P) (i2s_rx g)) \<and>
     (fft this', mel_data g') = t2mel C (fft this) (y_data this') \<and>
     (effect this', physic_leds this') =
       visualized C m (effect this) (mel_data g') (physic_leds this) \<and>
     light' = map to_Color (take (length p_it) (physic_leds this'))"
proof -
  obtain g' this' light' logs where r:
    "ShowFrame P C m p_it (g, this) = Some (g', this', light')"
    "y_data this' = ingested P g this"
    "fft this' = fst (t2mel C (fft this) (ingested P g this))"
    "mel_data g' = snd (t2mel C (fft this) (ingested P g this))"
    "effect this' = fst (visualized C m (effect this) (mel_data g') (physic_leds this))"
    "physic_leds this' = snd (visualized C m (effect this) (mel_data g') (physic_leds this))"
    "light' = map to_Color (take (length p_it) (physic_leds this'))"
    "i2s_rx g' = drop (BUFFER_SIZE P) (i2s_rx g)"
    "bytes_read g' = 2 * BUFFER_SIZE P"
    "\<forall>e\<in>set logs. is_LOGD e"
    "trace g' = trace g @ [I2S_READ (BUFFER_SIZE P * 2) portMAX_DELAY] @ logs @ [T2MEL]
                  @ visualize_call m
                  @ map (\<lambda>j. LIGHT_SET j (to_Color (physic_leds this' ! j))) [0..<length p_it]"
    using ShowFrame_result [OF assms] by blast
  have c: "calls (trace g') =
       calls (trace g) @ [I2S_READ (BUFFER_SIZE P * 2) portMAX_DELAY, T2MEL]
         @ visualize_call m
         @ map (\<lambda>j. LIGHT_SET j (to_Color (physic_leds this' ! j))) [0..<length p_it]"
    unfolding r(11) calls_append calls_visualize_call calls_light_sets filter_logs(1) [OF r(10)]
    by (simp add: calls_def)
  have t: "(fft this', mel_data g') = t2mel C (fft this) (y_data this')"
    by (simp add: r(2,3,4))
  have v: "(effect this', physic_leds this') =
       visualized C m (effect this) (mel_data g') (physic_leds this)"
    by (simp add: r(5,6))
  have y: "y_data this' =
       drop (BUFFER_SIZE P) (y_data this) @ map normalize (take (BUFFER_SIZE P) (i2s_rx g))"
    by (simp add: r(2) ingested_def)
  show ?thesis
    using r(1) c r(8) r(9) y t v r(7) by blast
qed

text \<open>
  The small configuration in scroll mode.
\<close>

theorem ShowFrame_one_frame_witness:
  "frame_ready P0 g0 this0 \<and> keeps_length C0 MODE_SCROLL \<and>
   length light0 \<le> length (physic_leds this0) \<and>
   (\<exists>g' this' light'.
      ShowFrame P0 C0 MODE_SCROLL light0 (g0, this0) = Some (g', this', light') \<and>
      calls (trace g') = [I2S_READ 4 portMAX_DELAY, T2MEL, VISUALIZE_SCROLL,
                          LIGHT_SET 0 (Color 7 8 9 0)] \<and>
      i2s_rx g' = [0, 16384] \<and>
      y_data this' = [Fin (1 / 4), Fin 1, Fin (- 1), Fin (32767 / 32768)] \<and>
      mel_data g' = [Fin (32767 / 32768)] \<and>
      physic_leds this' = [CRGB 7 8 9, CRGB 7 8 9] \<and>
      light' = [Color 7 8 9 0])"
proof -
  obtain g' this' light' where r:
    "ShowFrame P0 C0 MODE_SCROLL light0 (g0, this0) = Some (g', this', light')"
    "calls (trace g') =
       calls (trace g0) @ [I2S_READ (BUFFER_SIZE P0 * 2) portMAX_DELAY, T2MEL]
         @ visualize_call MODE_SCROLL
         @ map (\<lambda>j. LIGHT_SET j (to_Color (physic_leds this' ! j))) [0..<length light0]"
    "i2s_rx g' = drop (BUFFER_SIZE P0) (i2s_rx g0)"
    "y_data this' =
       drop (BUFFER_SIZE P0) (y_data this0) @ map normalize (take (BUFFER_SIZE P0) (i2s_rx g0))"
    "(fft this', mel_data g') = t2mel C0 (fft this0) (y_data this')"
    "(effect this', physic_leds this') =
       visualized C0 MODE_SCROLL (effect this0) (mel_data g') (physic_leds this0)"
    "light' = map to_Color (take (length light0) (physic_leds this'))"
    using ShowFrame_one_frame [OF ex_ready ex_keeps ex_light, of MODE_SCROLL] by blast
  have y: "y_data this' = [Fin (1 / 4), Fin 1, Fin (- 1), Fin (32767 / 32768)]"
    using r(4) ex_ingested by (simp add: ingested_def)
  have m: "mel_data g' = [Fin (32767 / 32768)]"
    using r(5) by (simp add: y C0_def)
  have p: "physic_leds this' = [CRGB 7 8 9, CRGB 7 8 9]"
    using r(6) by (simp add: C0_def this0_def)
  have l: "light' = [Color 7 8 9 0]"
    using r(7) by (simp add: p light0_def to_Color_def)
  have c: "calls (trace g') = [I2S_READ 4 portMAX_DELAY, T2MEL, VISUALIZE_SCROLL,
                          LIGHT_SET 0 (Color 7 8 9 0)]"
    using r(2) by (simp add: p light0_def to_Color_def g0_def P0_def calls_def)
  have x: "i2s_rx g' = [0, 16384]"
    using r(3) by (simp add: g0_def P0_def)
  show ?thesis
    using ex_ready ex_keeps ex_light r(1) c x y m p l by blast
qed

lemma to_Color_sel:
  "color_r (to_Color p) = crgb_r p" "color_g (to_Color p) = crgb_g p"
  "color_b (to_Color p) = crgb_b p" "color_w (to_Color p) = 0"
  by (simp_all add: to_Color_def)

lemma filter_light_sets:
  "filter is_LIGHT_SET (map (\<lambda>j. LIGHT_SET j (f j)) js) = map (\<lambda>j. LIGHT_SET j (f j)) js"
  by (induction js) simp_all

lemma filter_visualize_call:
  "filter is_LIGHT_SET (visualize_call m) = []"
  by (cases m) simp_all

text \<open>
  \<^bold>\<open>C4.\<close>  For a mode selector that is none of the three recognized ones, a frame leaves
  the pixel frame \<^verbatim>\<open>physic_leds\<close> (and the effect object) as it was, and no visualization
  function is called.
\<close>

theorem ShowFrame_unrecognized_mode:
  assumes "frame_ready P g this" and "length p_it \<le> length (physic_leds this)"
  shows "\<exists>g' this' light' es.
     ShowFrame P C (MODE_OTHER v) p_it (g, this) = Some (g', this', light') \<and>
     physic_leds this' = physic_leds this \<and>
     effect this' = effect this \<and>
     trace g' = trace g @ es \<and> filter is_VISUALIZE es = []"
proof -
  obtain g' this' light' logs where r:
    "ShowFrame P C (MODE_OTHER v) p_it (g, this) = Some (g', this', light')"
    "effect this' = fst (visualized C (MODE_OTHER v) (effect this) (mel_data g') (physic_leds this))"
    "physic_leds this' = snd (visualized C (MODE_OTHER v) (effect this) (mel_data g') (physic_leds this))"
    "\<forall>e\<in>set logs. is_LOGD e"
    "trace g' = trace g @ [I2S_READ (BUFFER_SIZE P * 2) portMAX_DELAY] @ logs @ [T2MEL]
                  @ visualize_call (MODE_OTHER v)
                  @ map (\<lambda>j. LIGHT_SET j (to_Color (physic_leds this' ! j))) [0..<length p_it]"
    using ShowFrame_result [OF assms(1) keeps_length_other assms(2)] by blast
  define es where "es = [I2S_READ (BUFFER_SIZE P * 2) portMAX_DELAY] @ logs @ [T2MEL]
                  @ map (\<lambda>j. LIGHT_SET j (to_Color (physic_leds this' ! j))) [0..<length p_it]"
  have t: "trace g' = trace g @ es" using r(5) by (simp add: es_def)
  have "filter is_VISUALIZE (map (\<lambda>j. LIGHT_SET j (to_Color (physic_leds this' ! j))) [0..<length p_it]) = []"
    by (simp add: filter_empty_conv)
  then have f: "filter is_VISUALIZE es = []"
    using filter_logs(2) [OF r(4)] by (simp add: es_def)
  have p: "physic_leds this' = physic_leds this" "effect this' = effect this"
    using r(2,3) by simp_all
  show ?thesis using r(1) p t f by blast
qed

text \<open>
  The small configuration with the selector 7.
\<close>

theorem ShowFrame_unrecognized_mode_witness:
  "frame_ready P0 g0 this0 \<and> length light0 \<le> length (physic_leds this0) \<and>
   (\<exists>g' this' light' es.
      ShowFrame P0 C0 (MODE_OTHER 7) light0 (g0, this0) = Some (g', this', light') \<and>
      physic_leds this' = [CRGB 1 2 3, CRGB 4 5 6] \<and>
      trace g' = es \<and> filter is_VISUALIZE es = [])"
  using ShowFrame_unrecognized_mode [OF ex_ready ex_light, of C0 7] ex_ready ex_light
  by (simp add: this0_def g0_def)

text \<open>
  \<^bold>\<open>C5\<close>, as stated, fails: the loop of lines 80 to 87 runs to \<^verbatim>\<open>p_it->size()\<close>, not to
  the pixel count.  With two pixels and a light buffer of one slot, a frame in a
  recognized mode writes one entry.
\<close>

theorem ShowFrame_writes_counterexample:
  "recognized MODE_ENERGY \<and> unat (n_pixels this0) = 2 \<and> length (physic_leds this0) = 2 \<and>
   light_writes (ShowFrame P0 C0 MODE_ENERGY light0 (g0, this0)) = Some 1"
proof -
  obtain g' this' light' logs where r:
    "ShowFrame P0 C0 MODE_ENERGY light0 (g0, this0) = Some (g', this', light')"
    "\<forall>e\<in>set logs. is_LOGD e"
    "trace g' = trace g0 @ [I2S_READ (BUFFER_SIZE P0 * 2) portMAX_DELAY] @ logs @ [T2MEL]
                  @ visualize_call MODE_ENERGY
                  @ map (\<lambda>j. LIGHT_SET j (to_Color (physic_leds this' ! j))) [0..<length light0]"
    using ShowFrame_result [OF ex_ready ex_keeps ex_light, of MODE_ENERGY] by blast
  have "filter is_LIGHT_SET (trace g') = [LIGHT_SET 0 (to_Color (physic_leds this' ! 0))]"
    unfolding r(3) using filter_logs(3) [OF r(2)] by (simp add: g0_def light0_def)
  then have "light_writes (ShowFrame P0 C0 MODE_ENERGY light0 (g0, this0)) = Some 1"
    by (simp add: light_writes_def r(1))
  then show ?thesis by (simp add: this0_def)
qed

text \<open>
  \<^bold>\<open>C5\<close>, amended.  For each of the three recognized modes, a frame writes every slot of
  the light buffer exactly once, in index order, that is \<^verbatim>\<open>p_it->size()\<close> entries (the
  pixel count when the light buffer has as many slots as there are pixels; it may not
  have more).  Every entry written has the red, green and blue of the pixel frame at
  its index and a white channel of zero.
\<close>

theorem ShowFrame_writes_every_slot:
  assumes "recognized m" and "frame_ready P g this" and "keeps_length C m"
    and "length p_it \<le> length (physic_leds this)"
  shows "\<exists>g' this' light'.
     ShowFrame P C m p_it (g, this) = Some (g', this', light') \<and>
     length light' = length p_it \<and>
     filter is_LIGHT_SET (trace g') =
       filter is_LIGHT_SET (trace g) @ map (\<lambda>j. LIGHT_SET j (light' ! j)) [0..<length p_it] \<and>
     (\<forall>j<length p_it.
        color_r (light' ! j) = crgb_r (physic_leds this' ! j) \<and>
        color_g (light' ! j) = crgb_g (physic_leds this' ! j) \<and>
        color_b (light' ! j) = crgb_b (physic_leds this' ! j) \<and>
        color_w (light' ! j) = 0)"
proof -
  obtain g' this' light' logs where r:
    "ShowFrame P C m p_it (g, this) = Some (g', this', light')"
    "light' = map to_Color (take (length p_it) (physic_leds this'))"
    "length p_it \<le> length (physic_leds this')"
    "\<forall>e\<in>set logs. is_LOGD e"
    "trace g' = trace g @ [I2S_READ (BUFFER_SIZE P * 2) portMAX_DELAY] @ logs @ [T2MEL]
                  @ visualize_call m
                  @ map (\<lambda>j. LIGHT_SET j (to_Color (physic_leds this' ! j))) [0..<length p_it]"
    using ShowFrame_result [OF assms(2,3,4)] by blast
  have len: "length light' = length p_it" using r(2,3) by simp
  have nth: "\<And>j. j < length p_it \<Longrightarrow> light' ! j = to_Color (physic_leds this' ! j)"
    using r(2,3) by simp
  have m: "map (\<lambda>j. LIGHT_SET j (to_Color (physic_leds this' ! j))) [0..<length p_it]
         = map (\<lambda>j. LIGHT_SET j (light' ! j)) [0..<length p_it]"
    using nth by simp
  have f: "filter is_LIGHT_SET (trace g') =
       filter is_LIGHT_SET (trace g) @ map (\<lambda>j. LIGHT_SET j (light' ! j)) [0..<length p_it]"
    unfolding r(5) m using filter_logs(3) [OF r(4)]
    by (simp add: filter_light_sets filter_visualize_call)
  have c: "\<forall>j<length p_it.
        color_r (light' ! j) = crgb_r (physic_leds this' ! j) \<and>
        color_g (light' ! j) = crgb_g (physic_leds this' ! j) \<and>
        color_b (light' ! j) = crgb_b (physic_leds this' ! j) \<and>
        color_w (light' ! j) = 0"
    using nth by (simp add: to_Color_sel)
  show ?thesis using r(1) len f c by blast
qed

text \<open>
  The small configuration in energy mode.
\<close>

theorem ShowFrame_writes_every_slot_witness:
  "recognized MODE_ENERGY \<and> frame_ready P0 g0 this0 \<and> keeps_length C0 MODE_ENERGY \<and>
   length light0 \<le> length (physic_leds this0) \<and>
   (\<exists>g' this' light'.
      ShowFrame P0 C0 MODE_ENERGY light0 (g0, this0) = Some (g', this', light') \<and>
      length light' = 1 \<and>
      filter is_LIGHT_SET (trace g') = [LIGHT_SET 0 (light' ! 0)] \<and>
      color_w (light' ! 0) = 0)"
  using ShowFrame_writes_every_slot [OF _ ex_ready ex_keeps ex_light, of MODE_ENERGY]
    ex_ready ex_keeps ex_light
  by (simp add: light0_def g0_def) blast

lemma pipeline_state_w0:
  "pipeline_state w0 1 =
     ([Fin 0, Fin (1 / 2), Fin (1 / 4), Fin 1], [Fin 0], [CRGB 1 2 3, CRGB 4 5 6], 0)"
  by (simp add: pipeline_state_def w0_def g0_def this0_def)

lemma pipeline_state_after_w0:
  "pipeline_state_after (ShowFrame_on P0 C0 0 MODE_ENERGY light0 w0) 1 =
     Some ([Fin 0, Fin (1 / 2), Fin (1 / 4), Fin 1], [Fin (32767 / 32768)],
           [CRGB 1 2 3, CRGB 4 5 6], 2)"
proof -
  obtain g' this' light' where r:
    "ShowFrame P0 C0 MODE_ENERGY light0 (g0, this0) = Some (g', this', light')"
    "mel_data g' = snd (t2mel C0 (fft this0) (ingested P0 g0 this0))"
    "ii g' = ii g0 + of_nat (BUFFER_SIZE P0)"
    using ShowFrame_result [OF ex_ready ex_keeps ex_light, of MODE_ENERGY] by blast
  have m: "mel_data g' = [Fin (32767 / 32768)]"
    unfolding r(2) ex_ingested by (simp add: C0_def)
  have i: "ii g' = 2" unfolding r(3) by (simp add: g0_def P0_def)
  show ?thesis
    by (simp add: pipeline_state_after_def ShowFrame_on_def w0_def r(1) pipeline_state_def m i)
       (simp add: this0_def)
qed

text \<open>
  \<^bold>\<open>C6\<close>, as stated, fails: \<^verbatim>\<open>mel_data\<close> and \<^verbatim>\<open>ii\<close> are function-local statics, one
  copy for all instances.  With two instances, a frame of instance 0 changes the
  mel-energy vector and the sample counter that instance 1 sees.
\<close>

theorem instances_share_statics_counterexample:
  "pipeline_state w0 1 =
     ([Fin 0, Fin (1 / 2), Fin (1 / 4), Fin 1], [Fin 0], [CRGB 1 2 3, CRGB 4 5 6], 0) \<and>
   pipeline_state_after (ShowFrame_on P0 C0 0 MODE_ENERGY light0 w0) 1 =
     Some ([Fin 0, Fin (1 / 2), Fin (1 / 4), Fin 1], [Fin (32767 / 32768)],
           [CRGB 1 2 3, CRGB 4 5 6], 2) \<and>
   pipeline_state_after (ShowFrame_on P0 C0 0 MODE_ENERGY light0 w0) 1
     \<noteq> Some (pipeline_state w0 1)"
  unfolding pipeline_state_w0 pipeline_state_after_w0 by simp

text \<open>
  \<^bold>\<open>C6\<close>, amended.  The members of a \<^verbatim>\<open>MusicLeds\<close> object (sample buffer, pixel buffer,
  transform and effect objects) belong to that instance: a frame of instance \<open>k\<close> leaves
  every other instance \<open>j\<close> as it was and does not depend on it.  The mel-energy vector
  and the diagnostic sample counter are shared by all instances: a frame of any instance
  overwrites the one vector and advances the one counter by \<^verbatim>\<open>BUFFER_SIZE\<close>.
\<close>

theorem ShowFrame_on_other_instance:
  assumes "k < length (instances w)"
    and "frame_ready P (shared w) (instances w ! k)"
    and "keeps_length C m"
    and "length p_it \<le> length (physic_leds (instances w ! k))"
    and "j < length (instances w)" and "j \<noteq> k"
  shows "\<exists>w' light'.
     ShowFrame_on P C k m p_it w = Some (w', light') \<and>
     length (instances w') = length (instances w) \<and>
     instances w' ! j = instances w ! j \<and>
     ii (shared w') = ii (shared w) + of_nat (BUFFER_SIZE P) \<and>
     mel_data (shared w') =
       snd (t2mel C (fft (instances w ! k)) (y_data (instances w' ! k))) \<and>
     ShowFrame_on P C k m p_it (w\<lparr>instances := (instances w)[j := x]\<rparr>) =
       Some (w'\<lparr>instances := (instances w')[j := x]\<rparr>, light')"
proof -
  obtain g' this' light' where r:
    "ShowFrame P C m p_it (shared w, instances w ! k) = Some (g', this', light')"
    "y_data this' = ingested P (shared w) (instances w ! k)"
    "mel_data g' = snd (t2mel C (fft (instances w ! k)) (ingested P (shared w) (instances w ! k)))"
    "ii g' = ii (shared w) + of_nat (BUFFER_SIZE P)"
    using ShowFrame_result [OF assms(2,3,4)] by blast
  define w' where "w' = w\<lparr>shared := g', instances := (instances w)[k := this']\<rparr>"
  have e: "ShowFrame_on P C k m p_it w = Some (w', light')"
    using assms(1) by (simp add: ShowFrame_on_def r(1) w'_def)
  have a: "length (instances w') = length (instances w)" by (simp add: w'_def)
  have b: "instances w' ! j = instances w ! j" using assms(6) by (simp add: w'_def)
  have c: "ii (shared w') = ii (shared w) + of_nat (BUFFER_SIZE P)" by (simp add: w'_def r(4))
  have d: "mel_data (shared w') = snd (t2mel C (fft (instances w ! k)) (y_data (instances w' ! k)))"
    using assms(1) by (simp add: w'_def r(2,3))
  have f: "ShowFrame_on P C k m p_it (w\<lparr>instances := (instances w)[j := x]\<rparr>) =
       Some (w'\<lparr>instances := (instances w')[j := x]\<rparr>, light')"
    using assms(1,6) by (simp add: ShowFrame_on_def r(1) w'_def list_update_swap)
  show ?thesis using e a b c d f by blast
qed

text \<open>
  Two instances of the small configuration.
\<close>

theorem ShowFrame_on_other_instance_witness:
  "(0::nat) < length (instances w0) \<and> frame_ready P0 (shared w0) (instances w0 ! 0) \<and>
   keeps_length C0 MODE_ENERGY \<and> length light0 \<le> length (physic_leds (instances w0 ! 0)) \<and>
   (1::nat) < length (instances w0) \<and> (1::nat) \<noteq> 0 \<and>
   (\<exists>w' light'.
      ShowFrame_on P0 C0 0 MODE_ENERGY light0 w0 = Some (w', light') \<and>
      instances w' ! 1 = this0 \<and> ii (shared w') = 2)"
proof -
  have h: "(0::nat) < length (instances w0)" "frame_ready P0 (shared w0) (instances w0 ! 0)"
    "keeps_length C0 MODE_ENERGY" "length light0 \<le> length (physic_leds (instances w0 ! 0))"
    "(1::nat) < length (instances w0)" "(1::nat) \<noteq> 0"
    using ex_ready ex_keeps ex_light by (simp_all add: w0_def)
  obtain w' light' where r:
    "ShowFrame_on P0 C0 0 MODE_ENERGY light0 w0 = Some (w', light')"
    "instances w' ! 1 = instances w0 ! 1"
    "ii (shared w') = ii (shared w0) + of_nat (BUFFER_SIZE P0)"
    using ShowFrame_on_other_instance [OF h] by blast
  have "instances w' ! 1 = this0" "ii (shared w') = 2"
    using r(2,3) by (simp_all add: w0_def g0_def P0_def)
  then show ?thesis using h r(1) by blast
qed

text \<open>
  \<^bold>\<open>C7.\<close>  \<^verbatim>\<open>setup\<close> calls, in this order: driver install, pin configuration, stop,
  start; the stop precedes the start.  The log line with the pixel count and the two
  pins follows.
\<close>

theorem setup_call_order:
  "trace (fst (MusicLeds_setup (g, this))) =
     trace g @
       [I2S_DRIVER_INSTALL,
        I2S_SET_PIN (ws_io_num (pin_config this)) (data_in_num (pin_config this)),
        I2S_STOP,
        I2S_START,
        LOGI (unat (n_pixels this)) (ws_io_num (pin_config this)) (data_in_num (pin_config this))] \<and>
   snd (MusicLeds_setup (g, this)) = this"
  by (simp add: MusicLeds_setup_def i2s_driver_install_def i2s_set_pin_def i2s_stop_def
      i2s_start_def emit_def)

text \<open>
  \<^bold>\<open>C8.\<close>  Every frame, also one with an unrecognized mode selector, overwrites all
  entries of the light buffer with the pixel frame, the white channel set to zero.  For
  an unrecognized mode the pixel frame copied out is the one of the frame before,
  unchanged.
\<close>

theorem ShowFrame_overwrites_light:
  assumes "frame_ready P g this" and "keeps_length C m"
    and "length p_it \<le> length (physic_leds this)"
  shows "\<exists>g' this' light'.
     ShowFrame P C m p_it (g, this) = Some (g', this', light') \<and>
     length light' = length p_it \<and>
     light' = map to_Color (take (length p_it) (physic_leds this')) \<and>
     list_all (\<lambda>c. color_w c = 0) light' \<and>
     (if recognized m
      then (effect this', physic_leds this') =
             visualized C m (effect this) (mel_data g') (physic_leds this)
      else physic_leds this' = physic_leds this)"
proof -
  obtain g' this' light' where r:
    "ShowFrame P C m p_it (g, this) = Some (g', this', light')"
    "effect this' = fst (visualized C m (effect this) (mel_data g') (physic_leds this))"
    "physic_leds this' = snd (visualized C m (effect this) (mel_data g') (physic_leds this))"
    "light' = map to_Color (take (length p_it) (physic_leds this'))"
    "length p_it \<le> length (physic_leds this')"
    using ShowFrame_result [OF assms] by blast
  have len: "length light' = length p_it" using r(4,5) by simp
  have w: "list_all (\<lambda>c. color_w c = 0) light'"
    unfolding r(4) by (simp add: list_all_iff to_Color_sel)
  have v: "if recognized m
      then (effect this', physic_leds this') =
             visualized C m (effect this) (mel_data g') (physic_leds this)
      else physic_leds this' = physic_leds this"
    using r(2,3) by (cases m) simp_all
  show ?thesis using r(1) len r(4) w v by blast
qed

text \<open>
  The small configuration with the selector 7.
\<close>

theorem ShowFrame_overwrites_light_witness:
  "frame_ready P0 g0 this0 \<and> keeps_length C0 (MODE_OTHER 7) \<and>
   length light0 \<le> length (physic_leds this0) \<and>
   (\<exists>g' this' light'.
      ShowFrame P0 C0 (MODE_OTHER 7) light0 (g0, this0) = Some (g', this', light') \<and>
      physic_leds this' = [CRGB 1 2 3, CRGB 4 5 6] \<and>
      light' = [Color 1 2 3 0])"
proof -
  obtain g' this' light' where r:
    "ShowFrame P0 C0 (MODE_OTHER 7) light0 (g0, this0) = Some (g', this', light')"
    "light' = map to_Color (take (length light0) (physic_leds this'))"
    "if recognized (MODE_OTHER 7)
      then (effect this', physic_leds this') =
             visualized C0 (MODE_OTHER 7) (effect this0) (mel_data g') (physic_leds this0)
      else physic_leds this' = physic_leds this0"
    using ShowFrame_overwrites_light [OF ex_ready ex_keeps ex_light, of "MODE_OTHER 7"] by blast
  have p: "physic_leds this' = [CRGB 1 2 3, CRGB 4 5 6]"
    using r(3) by (simp add: this0_def)
  have l: "light' = [Color 1 2 3 0]"
    unfolding r(2) p by (simp add: light0_def to_Color_def)
  show ?thesis using ex_ready ex_keeps ex_light r(1) p l by blast
qed

end
